(* ===== verification/Kernel_Prelude.thy ===== *)
theory Kernel_Prelude
  imports Main "HOL-Library.Word"
begin

unbundle bit_operations_syntax

text \<open>
  Shared vocabulary of the development: the machine integer types of the Rust sources, Rust
  panics as values of a sum type, arithmetic with and without overflow checks, slice access,
  and the generic lemmas on lists and words that the component theories use.

  Rust arithmetic on fixed-width integers panics on overflow when the crate is built with
  overflow checks (the default \<^verbatim>\<open>dev\<close> profile) and wraps otherwise (the \<^verbatim>\<open>release\<close> profile).
  \<^verbatim>\<open>Cargo.toml\<close> sets neither, so every operation whose operands may overflow takes the flag
  \<open>oc\<close> (overflow checks on) as its first argument and the lemmas say which results depend on it.
\<close>

named_theorems rust_simps \<open>evaluation of the panic monad and of checked arithmetic\<close>

section \<open>Types\<close>

type_synonym u8 = "8 word"
type_synonym u16 = "16 word"
type_synonym u32 = "32 word"
type_synonym u64 = "64 word"
type_synonym usize = "64 word"

text \<open>The ways a Rust function of the kernel can panic.\<close>

datatype panic =
    ArithOverflow
  | DivisionByZero
  | IndexOutOfBounds
  | UnwrapFailed string
  | ExplicitPanic string

type_synonym 'a rust = "panic + 'a"

section \<open>Sequencing of computations that may panic\<close>

definition bindE :: "'e + 'a \<Rightarrow> ('a \<Rightarrow> 'e + 'b) \<Rightarrow> 'e + 'b" where
  "bindE m f = (case m of Inl e \<Rightarrow> Inl e | Inr x \<Rightarrow> f x)"

lemma bindE_Inl [simp, rust_simps]: "bindE (Inl e) f = Inl e"
  by (simp add: bindE_def)

lemma bindE_Inr [simp, rust_simps]: "bindE (Inr x) f = f x"
  by (simp add: bindE_def)

lemma bindE_eq_Inr: "bindE m f = Inr y \<longleftrightarrow> (\<exists>x. m = Inr x \<and> f x = Inr y)"
  by (cases m) auto

lemma bindE_InrE:
  assumes "bindE m f = Inr y"
  obtains x where "m = Inr x" and "f x = Inr y"
  using assms by (auto simp: bindE_eq_Inr)

lemma bindE_cong [fundef_cong]:
  "m = m' \<Longrightarrow> (\<And>x. m' = Inr x \<Longrightarrow> f x = g x) \<Longrightarrow> bindE m f = bindE m' g"
  by (cases m') auto

lemma bindE_assoc: "bindE (bindE m f) g = bindE m (\<lambda>x. bindE (f x) g)"
  by (cases m) auto

text \<open>Code that may also run forever: \<open>None\<close> is not returning.\<close>

type_synonym 'a outcome = "'a rust option"

definition bindP :: "'a outcome \<Rightarrow> ('a \<Rightarrow> 'b outcome) \<Rightarrow> 'b outcome" where
  "bindP m f = (case m of None \<Rightarrow> None | Some (Inl e) \<Rightarrow> Some (Inl e) | Some (Inr x) \<Rightarrow> f x)"

lemma bindP_simps [simp]:
  "bindP None f = None"
  "bindP (Some (Inl e)) f = Some (Inl e)"
  "bindP (Some (Inr x)) f = f x"
  by (simp_all add: bindP_def)

lemma bindP_InrE:
  assumes "bindP m f = Some (Inr y)"
  obtains x where "m = Some (Inr x)" and "f x = Some (Inr y)"
  using assms by (auto simp: bindP_def split: option.splits sum.splits)

lemma bindP_bind: "bindP m f = Option.bind m (\<lambda>r. case r of Inl e \<Rightarrow> Some (Inl e) | Inr x \<Rightarrow> f x)"
  by (cases m) (auto simp: bindP_def split: sum.splits)

lemma bindP_mono [partial_function_mono]:
  assumes "mono_option B" and "\<And>y. mono_option (\<lambda>f. C y f)"
  shows "mono_option (\<lambda>f. bindP (B f) (\<lambda>y. C y f))"
  unfolding bindP_bind
proof (rule bind_mono [OF assms(1)])
  fix r
  show "mono_option (\<lambda>f. case r of Inl e \<Rightarrow> Some (Inl e) | Inr x \<Rightarrow> C x f)"
    using assms(2) by (cases r) (auto simp: option.const_mono)
qed

definition expect :: "string \<Rightarrow> 'a option \<Rightarrow> 'a rust" where
  "expect msg x = (case x of None \<Rightarrow> Inl (UnwrapFailed msg) | Some v \<Rightarrow> Inr v)"

lemma expect_simps [simp, rust_simps]:
  "expect msg None = Inl (UnwrapFailed msg)"
  "expect msg (Some v) = Inr v"
  by (simp_all add: expect_def)

section \<open>Arithmetic on machine integers\<close>

definition add_ck :: "bool \<Rightarrow> 'a::len word \<Rightarrow> 'a word \<Rightarrow> 'a word rust" where
  "add_ck oc a b =
     (if oc \<and> 2 ^ LENGTH('a) \<le> unat a + unat b then Inl ArithOverflow else Inr (a + b))"

definition sub_ck :: "bool \<Rightarrow> 'a::len word \<Rightarrow> 'a word \<Rightarrow> 'a word rust" where
  "sub_ck oc a b = (if oc \<and> a < b then Inl ArithOverflow else Inr (a - b))"

definition mul_ck :: "bool \<Rightarrow> 'a::len word \<Rightarrow> 'a word \<Rightarrow> 'a word rust" where
  "mul_ck oc a b =
     (if oc \<and> 2 ^ LENGTH('a) \<le> unat a * unat b then Inl ArithOverflow else Inr (a * b))"

text \<open>Division by zero panics in every profile.\<close>

definition div_ck :: "'a::len word \<Rightarrow> 'a word \<Rightarrow> 'a word rust" where
  "div_ck a b = (if b = 0 then Inl DivisionByZero else Inr (a div b))"

text \<open>
  Shifting by at least the width panics with overflow checks; without them the shift amount is
  reduced modulo the width.
\<close>

definition shr_ck :: "bool \<Rightarrow> 'a::len word \<Rightarrow> nat \<Rightarrow> 'a word rust" where
  "shr_ck oc a n =
     (if oc \<and> LENGTH('a) \<le> n then Inl ArithOverflow else Inr (drop_bit (n mod LENGTH('a)) a))"

definition shl_ck :: "bool \<Rightarrow> 'a::len word \<Rightarrow> nat \<Rightarrow> 'a word rust" where
  "shl_ck oc a n =
     (if oc \<and> LENGTH('a) \<le> n then Inl ArithOverflow else Inr (push_bit (n mod LENGTH('a)) a))"

lemma add_ck_ok [rust_simps]:
  fixes a b :: "'a::len word"
  shows "unat a + unat b < 2 ^ LENGTH('a) \<Longrightarrow> add_ck oc a b = Inr (a + b)"
  by (simp add: add_ck_def)

lemma sub_ck_ok [rust_simps]: "b \<le> a \<Longrightarrow> sub_ck oc a b = Inr (a - b)"
  by (auto simp: sub_ck_def not_less)

lemma mul_ck_ok [rust_simps]:
  fixes a b :: "'a::len word"
  shows "unat a * unat b < 2 ^ LENGTH('a) \<Longrightarrow> mul_ck oc a b = Inr (a * b)"
  by (simp add: mul_ck_def)

lemma div_ck_ok [rust_simps]: "b \<noteq> 0 \<Longrightarrow> div_ck a b = Inr (a div b)"
  by (simp add: div_ck_def)

lemma shr_ck_ok [rust_simps]:
  fixes a :: "'a::len word"
  shows "n < LENGTH('a) \<Longrightarrow> shr_ck oc a n = Inr (drop_bit n a)"
  by (simp add: shr_ck_def)

lemma shl_ck_ok [rust_simps]:
  fixes a :: "'a::len word"
  shows "n < LENGTH('a) \<Longrightarrow> shl_ck oc a n = Inr (push_bit n a)"
  by (simp add: shl_ck_def)

lemma unat_bound:
  fixes w :: "'a::len word"
  shows "unat w < 2 ^ LENGTH('a)"
  by (rule unsigned_less)

lemma unat_less_u64: "unat (w :: u64) < 18446744073709551616"
  using unat_bound [of w] by (simp del: unsigned_less)

lemma unat_of_nat_small: "n < 2 ^ LENGTH('a) \<Longrightarrow> unat (of_nat n :: 'a::len word) = n"
  by (simp add: unat_of_nat)

lemma unat_add_small:
  fixes a b :: "'a::len word"
  shows "unat a + unat b < 2 ^ LENGTH('a) \<Longrightarrow> unat (a + b) = unat a + unat b"
  by (simp add: unat_word_ariths)

lemma unat_mult_small:
  fixes a b :: "'a::len word"
  shows "unat a * unat b < 2 ^ LENGTH('a) \<Longrightarrow> unat (a * b) = unat a * unat b"
  by (simp add: unat_word_ariths)

section \<open>Lists and slices\<close>

text \<open>\<open>Iterator::position\<close>: the index of the first element that satisfies the predicate.\<close>

fun position :: "('a \<Rightarrow> bool) \<Rightarrow> 'a list \<Rightarrow> nat option" where
  "position P [] = None"
| "position P (x # xs) = (if P x then Some 0 else map_option Suc (position P xs))"

lemma position_None: "position P xs = None \<longleftrightarrow> (\<forall>x \<in> set xs. \<not> P x)"
  by (induction xs) auto

lemma position_Some:
  "position P xs = Some i \<longleftrightarrow> i < length xs \<and> P (xs ! i) \<and> (\<forall>j < i. \<not> P (xs ! j))"
proof (induction xs arbitrary: i)
  case Nil
  then show ?case by simp
next
  case (Cons x xs)
  show ?case
    by (cases i) (auto simp: Cons.IH All_less_Suc2 simp del: position.simps(1))
qed

text \<open>Unfolding of closed index ranges, for evaluating loops on concrete inputs.\<close>

lemma upt_eval:
  "[0 ..< numeral k] = 0 # [Suc 0 ..< numeral k]"
  "[Suc 0 ..< numeral k] = (if Suc 0 < numeral k then Suc 0 # [2 ..< numeral k] else [])"
  "[0 ..< Suc 0] = [0]"
  by (simp_all add: upt_conv_Cons numeral_2_eq_2)

text \<open>Indexing a slice or vector panics out of range.\<close>

definition index_ck :: "'a list \<Rightarrow> nat \<Rightarrow> 'a rust" where
  "index_ck xs i = (if i < length xs then Inr (xs ! i) else Inl IndexOutOfBounds)"

lemma index_ck_ok [rust_simps]: "i < length xs \<Longrightarrow> index_ck xs i = Inr (xs ! i)"
  by (simp add: index_ck_def)

text \<open>The slice \<open>xs[lo..hi]\<close>: panics unless \<open>lo \<le> hi\<close> and \<open>hi\<close> is within the length.\<close>

definition slice_ck :: "'a list \<Rightarrow> nat \<Rightarrow> nat \<Rightarrow> 'a list rust" where
  "slice_ck xs lo hi =
     (if lo \<le> hi \<and> hi \<le> length xs then Inr (take (hi - lo) (drop lo xs))
      else Inl IndexOutOfBounds)"

lemma slice_ck_ok [rust_simps]:
  "lo \<le> hi \<Longrightarrow> hi \<le> length xs \<Longrightarrow> slice_ck xs lo hi = Inr (take (hi - lo) (drop lo xs))"
  by (simp add: slice_ck_def)

text \<open>\<open>Vec::get\<close> and \<open>VecDeque::get\<close> return \<open>None\<close> out of range.\<close>

definition get_opt :: "'a list \<Rightarrow> nat \<Rightarrow> 'a option" where
  "get_opt xs i = (if i < length xs then Some (xs ! i) else None)"

lemma get_opt_simps [simp]:
  "i < length xs \<Longrightarrow> get_opt xs i = Some (xs ! i)"
  "length xs \<le> i \<Longrightarrow> get_opt xs i = None"
  by (simp_all add: get_opt_def)

text \<open>A loop over a list of inputs whose body may panic.\<close>

fun foldE :: "('x \<Rightarrow> 's \<Rightarrow> 'e + 's) \<Rightarrow> 'x list \<Rightarrow> 's \<Rightarrow> 'e + 's" where
  "foldE f [] s = Inr s"
| "foldE f (x # xs) s = bindE (f x s) (foldE f xs)"

lemma foldE_append: "foldE f (xs @ ys) s = bindE (foldE f xs s) (foldE f ys)"
proof (induction xs arbitrary: s)
  case (Cons x xs)
  have "foldE f (xs @ ys) = (\<lambda>s. bindE (foldE f xs s) (foldE f ys))"
    using Cons.IH by blast
  then show ?case by (simp add: bindE_assoc)
qed simp

lemma foldE_invariant:
  assumes "foldE f xs s = Inr t" and "P s"
    and "\<And>x s t. x \<in> set xs \<Longrightarrow> P s \<Longrightarrow> f x s = Inr t \<Longrightarrow> P t"
  shows "P t"
  using assms
proof (induction xs arbitrary: s)
  case Nil
  then show ?case by simp
next
  case (Cons x xs)
  from Cons.prems(1) obtain u where u: "f x s = Inr u" and rest: "foldE f xs u = Inr t"
    by (auto elim: bindE_InrE)
  have "P u"
    using Cons.prems(3) [OF _ Cons.prems(2) u] by simp
  then show ?case
    using Cons.IH [OF rest] Cons.prems(3) by (meson list.set_intros(2))
qed

section \<open>Little-endian byte encoding\<close>

text \<open>
  The packed structures of the sources are read from memory or disk by reinterpreting bytes; the
  target is little endian. \<open>le_word\<close> reads an integer from its bytes and \<open>le_bytes\<close> is Rust's
  \<open>to_le_bytes\<close>, for an integer of \<open>n\<close> bytes.
\<close>

fun le_word :: "u8 list \<Rightarrow> 'a::len word" where
  "le_word [] = 0"
| "le_word (b # bs) = ucast b OR push_bit 8 (le_word bs)"

fun le_bytes :: "nat \<Rightarrow> 'a::len word \<Rightarrow> u8 list" where
  "le_bytes 0 w = []"
| "le_bytes (Suc n) w = ucast w # le_bytes n (drop_bit 8 w)"

lemma length_le_bytes [simp]: "length (le_bytes n w) = n"
  by (induction n arbitrary: w) auto

lemma bit_le_word:
  "bit (le_word bs :: 'a::len word) k \<longleftrightarrow>
     k < LENGTH('a) \<and> k div 8 < length bs \<and> bit (bs ! (k div 8)) (k mod 8)"
proof (induction bs arbitrary: k)
  case (Cons b bs)
  show ?case
  proof (cases "k < 8")
    case True
    then show ?thesis
      by (auto simp: bit_or_iff bit_ucast_iff bit_push_bit_iff)
  next
    case False
    then have "\<not> bit b k" and "k div 8 = Suc ((k - 8) div 8)" and "k mod 8 = (k - 8) mod 8"
      by (auto dest: bit_imp_le_length simp: div_if mod_if)
    with False Cons.IH [of "k - 8"] show ?thesis
      by (auto simp: bit_or_iff bit_ucast_iff bit_push_bit_iff)
  qed
qed simp

lemma nth_le_bytes: "i < n \<Longrightarrow> le_bytes n w ! i = ucast (drop_bit (8 * i) w)"
proof (induction n arbitrary: w i)
  case (Suc n)
  then show ?case
    by (cases i) (auto simp: drop_bit_drop_bit add.commute)
qed simp

lemma le_word_le_bytes:
  fixes w :: "'a::len word"
  assumes "LENGTH('a) \<le> 8 * n"
  shows "le_word (le_bytes n w) = w"
proof (rule bit_word_eqI)
  fix k assume k: "k < LENGTH('a)"
  with assms have "k div 8 < n" by auto
  with k show "bit (le_word (le_bytes n w) :: 'a word) k = bit w k"
    by (simp add: bit_le_word nth_le_bytes bit_ucast_iff bit_drop_bit_eq)
qed

lemma le_bytes_le_word:
  assumes "length bs = n" and "8 * n \<le> LENGTH('a::len)"
  shows "le_bytes n (le_word bs :: 'a word) = bs"
proof (rule nth_equalityI)
  show "length (le_bytes n (le_word bs :: 'a word)) = length bs"
    using assms by simp
  fix i assume "i < length (le_bytes n (le_word bs :: 'a word))"
  then have i: "i < n" by simp
  show "le_bytes n (le_word bs :: 'a word) ! i = bs ! i"
  proof (rule bit_word_eqI)
    fix k assume k: "k < LENGTH(8)"
    then have "(8 * i + k) div 8 = i" and "(8 * i + k) mod 8 = k" and "8 * i + k < 8 * n"
      using i by auto
    with i k assms show "bit (le_bytes n (le_word bs :: 'a word) ! i) k = bit (bs ! i) k"
      by (simp add: nth_le_bytes bit_le_word bit_ucast_iff bit_drop_bit_eq)
  qed
qed

lemma unat_ucast_up:
  fixes w :: "'a::len word"
  assumes "LENGTH('a) \<le> LENGTH('b::len)"
  shows "unat (ucast w :: 'b word) = unat w"
proof -
  have "unat w < 2 ^ LENGTH('b)" by (rule less_le_trans [OF unsigned_less power_increasing [OF assms]]) simp
  then show ?thesis by (simp add: unsigned_ucast_eq take_bit_eq_mod)
qed

text \<open>
  The contract of a packed structure that the sources read by a pointer cast or a transmute: \<open>decode\<close> is the cast, \<open>encode\<close> the
  layout, \<open>wf\<close> says that the byte arrays among the fields have their sizes.
\<close>

locale packed_struct =
  fixes decode :: "u8 list \<Rightarrow> 'a" and encode :: "'a \<Rightarrow> u8 list" and wf :: "'a \<Rightarrow> bool" and width :: nat
  assumes decode_encode: "wf x \<Longrightarrow> decode (encode x) = x"
    and length_encode: "wf x \<Longrightarrow> length (encode x) = width"
begin

lemma encode_inject: "wf x \<Longrightarrow> wf y \<Longrightarrow> encode x = encode y \<longleftrightarrow> x = y"
  using decode_encode by metis

lemma decode_prefix: "wf x \<Longrightarrow> decode (take width (encode x @ ys)) = x"
  by (simp add: length_encode decode_encode)

lemma length_array: "\<forall>x \<in> set xs. wf x \<Longrightarrow> length (concat (map encode xs)) = width * length xs"
  by (induction xs) (simp_all add: length_encode)

lemma take_array:
  assumes "\<forall>x \<in> set xs. wf x" and "i < length xs"
  shows "take width (drop (width * i) (concat (map encode xs) @ ys)) = encode (xs ! i)"
  using assms
proof (induction xs arbitrary: i)
  case (Cons x xs)
  then show ?case by (cases i) (simp_all add: length_encode)
qed simp

lemma decode_array: "\<forall>x \<in> set xs. wf x \<Longrightarrow> i < length xs \<Longrightarrow> decode (take width (drop (width * i) (concat (map encode xs) @ ys))) = xs ! i"
  by (subst take_array) (simp_all add: decode_encode)

end

end
