(* ===== verification/Machine.thy ===== *)
theory Machine
  imports Kernel_Prelude
begin

text \<open>
  The part of the x86-64 that the kernel's inline assembly uses: sixteen registers, byte-addressed
  memory, the stack instructions and the three ways of leaving a routine (\<^verbatim>\<open>ret\<close>, \<^verbatim>\<open>iretq\<close>,
  \<^verbatim>\<open>sysretq\<close>), and what the processor pushes when an interrupt arrives in ring 3.
  \<^verbatim>\<open>call\<close> runs a compiled Rust routine, whose effect on the processor is an argument of the
  execution function. \<^verbatim>\<open>cr3\<close> is kept the way \<^verbatim>\<open>Cr3::read\<close> and \<^verbatim>\<open>Cr3::write\<close> see it, as the start of the
  level 4 table's frame and the flags; model specific registers are a map from their numbers.
\<close>

section \<open>Memory of bytes, read and written in quadwords\<close>

type_synonym memory = "u64 \<Rightarrow> u8"

definition load64 :: "memory \<Rightarrow> u64 \<Rightarrow> u64" where
  "load64 m a = le_word (map (\<lambda>i. m (a + of_nat i)) [0 ..< 8])"

definition store64 :: "memory \<Rightarrow> u64 \<Rightarrow> u64 \<Rightarrow> memory" where
  "store64 m a v = (\<lambda>x. if unat (x - a) < 8 then le_bytes 8 v ! unat (x - a) else m x)"

lemma load64_cong: "(\<And>i. i < 8 \<Longrightarrow> m (a + of_nat i) = m' (a + of_nat i)) \<Longrightarrow> load64 m a = load64 m' a"
  by (auto simp: load64_def intro!: arg_cong [of _ _ le_word])

lemma load64_store64_same [simp]: "load64 (store64 m a v) a = v"
proof -
  have "map (\<lambda>i. store64 m a v (a + of_nat i)) [0 ..< 8] = le_bytes 8 v"
    by (rule nth_equalityI) (simp_all add: store64_def unat_of_nat_small)
  then show ?thesis by (simp add: load64_def le_word_le_bytes)
qed

lemma load64_store64_other [simp]:
  assumes "8 \<le> unat (a - b)" and "8 \<le> unat (b - a)"
  shows "load64 (store64 m a v) b = load64 m b"
proof (rule load64_cong)
  fix i :: nat assume i: "i < 8"
  define d where "d = b + of_nat i - a"
  have ab: "a - b = of_nat i - d" and ba: "b - a = d - of_nat i" by (simp_all add: d_def)
  have ui: "unat (of_nat i :: u64) = i" using i by (simp add: unat_of_nat_small)
  have "\<not> unat d < 8"
  proof (cases "unat d \<le> i")
    case True
    then have "d \<le> of_nat i" by (simp add: word_le_nat_alt ui)
    then have "unat (a - b) = i - unat d" by (simp add: ab unat_sub ui)
    with assms(1) i show ?thesis by simp
  next
    case False
    then have "of_nat i \<le> d" by (simp add: word_le_nat_alt ui)
    then have "unat (b - a) = unat d - i" by (simp add: ba unat_sub ui)
    with assms(2) show ?thesis by simp
  qed
  then show "store64 m a v (b + of_nat i) = m (b + of_nat i)" by (simp add: store64_def d_def)
qed

section \<open>Registers and instructions\<close>

datatype reg = RAX | RBX | RCX | RDX | RSI | RDI | RBP | RSP
  | R8 | R9 | R10 | R11 | R12 | R13 | R14 | R15

record cpu =
  regs :: "reg \<Rightarrow> u64"
  rip :: u64
  rflags :: u64
  seg_cs :: u16
  seg_ss :: u16
  cr3 :: "u64 \<times> u64"
  msr :: "u32 \<Rightarrow> u64"
  mem :: memory

datatype 'f instr = MOV reg reg | MOVI reg u64 | ADDI reg u64 | PUSH reg | PUSHI u64 | POP reg
  | CALL 'f | CLI | STI | RET | IRETQ | SYSRETQ | WRMSR u32 u64

definition set_reg :: "reg \<Rightarrow> u64 \<Rightarrow> cpu \<Rightarrow> cpu" where
  "set_reg r v c = c\<lparr>regs := (regs c)(r := v)\<rparr>"

definition push :: "u64 \<Rightarrow> cpu \<Rightarrow> cpu" where
  "push v c = (let sp = regs c RSP - 8 in (set_reg RSP sp c)\<lparr>mem := store64 (mem c) sp v\<rparr>)"

definition top_of_stack :: "cpu \<Rightarrow> u64" where
  "top_of_stack c = load64 (mem c) (regs c RSP)"

definition drop_top :: "cpu \<Rightarrow> cpu" where
  "drop_top c = set_reg RSP (regs c RSP + 8) c"

definition IF_bit :: u64 where
  "IF_bit = 0x200"

definition msr_star :: "cpu \<Rightarrow> u64" where
  "msr_star c = msr c 0xC0000081"

text \<open>
  \<^verbatim>\<open>sysretq\<close> takes the selectors of ring 3 from bits 48 to 63 of the STAR register, \<^verbatim>\<open>syscall\<close>
  those of ring 0 from bits 32 to 47; \<^verbatim>\<open>syscall\<close> leaves the stack pointer alone.
\<close>

definition sysret_selector :: "u64 \<Rightarrow> u16" where
  "sysret_selector star = ucast (drop_bit 48 star)"

definition syscall_selector :: "u64 \<Rightarrow> u16" where
  "syscall_selector star = ucast (drop_bit 32 star)"

definition sysret :: "cpu \<Rightarrow> cpu" where
  "sysret c = c\<lparr>rip := regs c RCX, rflags := (regs c R11 AND 0x3C7FD7) OR 2,
     seg_cs := (sysret_selector (msr_star c) + 16) OR 3,
     seg_ss := (sysret_selector (msr_star c) + 8) OR 3\<rparr>"

definition syscall_entry :: "u64 \<Rightarrow> cpu \<Rightarrow> cpu" where
  "syscall_entry next_rip c = (set_reg RCX next_rip (set_reg R11 (rflags c) c))
     \<lparr>rip := msr c 0xC0000082, rflags := rflags c AND NOT (msr c 0xC0000084),
      seg_cs := syscall_selector (msr_star c) AND 0xFFFC,
      seg_ss := syscall_selector (msr_star c) + 8\<rparr>"

fun exec_instr :: "('f \<Rightarrow> cpu \<Rightarrow> cpu) \<Rightarrow> 'f instr \<Rightarrow> cpu \<Rightarrow> cpu" where
  "exec_instr call (MOV d s) c = set_reg d (regs c s) c"
| "exec_instr call (MOVI d v) c = set_reg d v c"
| "exec_instr call (ADDI d v) c = set_reg d (regs c d + v) c"
| "exec_instr call (PUSH s) c = push (regs c s) c"
| "exec_instr call (PUSHI v) c = push v c"
| "exec_instr call (POP d) c = set_reg d (top_of_stack c) (drop_top c)"
| "exec_instr call (CALL f) c = call f c"
| "exec_instr call CLI c = c\<lparr>rflags := rflags c AND NOT IF_bit\<rparr>"
| "exec_instr call STI c = c\<lparr>rflags := rflags c OR IF_bit\<rparr>"
| "exec_instr call RET c = (drop_top c)\<lparr>rip := top_of_stack c\<rparr>"
| "exec_instr call IRETQ c =
     (let sp = regs c RSP
      in (set_reg RSP (load64 (mem c) (sp + 24)) c)
           \<lparr>rip := load64 (mem c) sp, seg_cs := ucast (load64 (mem c) (sp + 8)),
            rflags := load64 (mem c) (sp + 16), seg_ss := ucast (load64 (mem c) (sp + 32))\<rparr>)"
| "exec_instr call SYSRETQ c = sysret c"
| "exec_instr call (WRMSR r v) c = c\<lparr>msr := (msr c)(r := v)\<rparr>"

definition exec :: "('f \<Rightarrow> cpu \<Rightarrow> cpu) \<Rightarrow> 'f instr list \<Rightarrow> cpu \<Rightarrow> cpu" where
  "exec call is c = fold (exec_instr call) is c"

lemma exec_Nil [simp]: "exec call [] c = c"
  by (simp add: exec_def)

lemma exec_Cons [simp]: "exec call (i # is) c = exec call is (exec_instr call i c)"
  by (simp add: exec_def)

lemma exec_append: "exec call (is @ js) c = exec call js (exec call is c)"
  by (simp add: exec_def)

lemmas machine_simps = set_reg_def push_def top_of_stack_def drop_top_def Let_def

text \<open>
  An interrupt taken in ring 3: the processor switches to the stack the task state segment names for
  ring 0 and pushes \<^verbatim>\<open>ss\<close>, \<^verbatim>\<open>rsp\<close>, \<^verbatim>\<open>rflags\<close>, \<^verbatim>\<open>cs\<close> and \<^verbatim>\<open>rip\<close>.
\<close>

definition interrupt_from_user :: "u64 \<Rightarrow> u64 \<Rightarrow> u16 \<Rightarrow> u16 \<Rightarrow> cpu \<Rightarrow> cpu" where
  "interrupt_from_user rsp0 handler kernel_cs kernel_ss c =
     (let frame = [ucast (seg_ss c), regs c RSP, rflags c, ucast (seg_cs c), rip c]
      in (fold push frame (set_reg RSP rsp0 c))
           \<lparr>rip := handler, seg_cs := kernel_cs, seg_ss := kernel_ss, rflags := rflags c AND NOT IF_bit\<rparr>)"

lemma ucast_u16_u64 [simp]: "(ucast (ucast (x :: u16) :: u64) :: u16) = x"
  by (rule bit_word_eqI) (simp add: bit_simps)

lemma interrupt_then_iretq:
  fixes c :: cpu
  shows "exec_instr call IRETQ (interrupt_from_user rsp0 h kcs kss c) =
    c\<lparr>mem := mem (interrupt_from_user rsp0 h kcs kss c)\<rparr>"
  by (cases c) (auto simp: interrupt_from_user_def machine_simps fun_eq_iff)

end
