(* ===== verification/Gdt.thy ===== *)
theory Gdt
  imports Machine
begin

text \<open>
  \<^verbatim>\<open>src/gdt.rs\<close>: the task state segment and the global descriptor table. \<^verbatim>\<open>GlobalDescriptorTable\<close> is a
  type of the \<^verbatim>\<open>x86_64\<close> crate: \<open>add_entry\<close> is a parameter over a table \<open>'g\<close>, and \<open>add_entry_doc\<close> says
  that the entries are numbered in the order they are added, a system segment taking two slots.
\<close>

section \<open>Task state segment\<close>

definition DOUBLE_FAULT_IST_INDEX :: nat where
  "DOUBLE_FAULT_IST_INDEX = 0"

record tss =
  interrupt_stack_table :: "nat \<Rightarrow> u64"
  privilege_stack_table :: "nat \<Rightarrow> u64"

text \<open>The arguments are the addresses of the two static stacks.\<close>

definition TSS :: "u64 \<Rightarrow> u64 \<Rightarrow> tss" where
  "TSS double_fault_stack ring0_stack =
     \<lparr>interrupt_stack_table = (\<lambda>_. 0)(DOUBLE_FAULT_IST_INDEX := double_fault_stack + 4096 * 5),
      privilege_stack_table = (\<lambda>_. 0)(0 := ring0_stack + 0x10000)\<rparr>"

section \<open>Descriptor table\<close>

datatype descriptor = kernel_code_segment | kernel_data_segment | tss_segment tss
  | user_data_segment | user_code_segment

record Selectors =
  code_selector :: u16
  data_selector :: u16
  tss_selector :: u16
  user_data_selector :: u16
  user_code_selector :: u16

type_synonym 'g add_entry_fn = "descriptor \<Rightarrow> 'g \<Rightarrow> u16 \<times> 'g"

definition GDT :: "'g add_entry_fn \<Rightarrow> 'g \<Rightarrow> tss \<Rightarrow> 'g \<times> Selectors" where
  "GDT add_entry gdt0 the_tss =
     (let (code, gdt) = add_entry kernel_code_segment gdt0;
          (data, gdt) = add_entry kernel_data_segment gdt;
          (tss, gdt) = add_entry (tss_segment the_tss) gdt;
          (user_data, gdt) = add_entry user_data_segment gdt;
          (user_code, gdt) = add_entry user_code_segment gdt
      in (gdt, \<lparr>code_selector = code, data_selector = data, tss_selector = tss,
                user_data_selector = user_data, user_code_selector = user_code\<rparr>))"

text \<open>\<^verbatim>\<open>init\<close> loads the table, the kernel's code selector and the task register.\<close>

record 'g segments =
  loaded_gdt :: "'g option"
  cs_reg :: u16
  ds_reg :: u16
  task_reg :: u16

definition gdt_init :: "'g \<times> Selectors \<Rightarrow> 'g segments \<Rightarrow> 'g segments" where
  "gdt_init gdt c = c\<lparr>loaded_gdt := Some (fst gdt), cs_reg := code_selector (snd gdt),
     task_reg := tss_selector (snd gdt)\<rparr>"

definition set_usermode_segments :: "Selectors \<Rightarrow> 'g segments \<Rightarrow> (u16 \<times> u16) \<times> 'g segments" where
  "set_usermode_segments sel c =
     (let cs = user_code_selector sel OR 3; ds = user_data_selector sel OR 3
      in ((cs, ds), c\<lparr>ds_reg := ds\<rparr>))"

section \<open>The selectors\<close>

definition slots_of :: "descriptor \<Rightarrow> nat" where
  "slots_of d = (case d of tss_segment _ \<Rightarrow> 2 | _ \<Rightarrow> 1)"

definition ring_of :: "descriptor \<Rightarrow> u16" where
  "ring_of d = (if d = user_data_segment \<or> d = user_code_segment then 3 else 0)"

definition add_entry_doc :: "'g add_entry_fn \<Rightarrow> ('g \<Rightarrow> nat) \<Rightarrow> bool" where
  "add_entry_doc add_entry used \<longleftrightarrow>
     (\<forall>d g. used g + slots_of d \<le> 8 \<longrightarrow>
        fst (add_entry d g) = push_bit 3 (of_nat (used g)) OR ring_of d \<and>
        used (snd (add_entry d g)) = used g + slots_of d)"

lemma add_entryD:
  assumes "add_entry_doc add_entry used" and "used g + slots_of d \<le> 8"
  shows "\<exists>g'. add_entry d g = (push_bit 3 (of_nat (used g)) OR ring_of d, g') \<and> used g' = used g + slots_of d"
  using assms(1) [unfolded add_entry_doc_def, rule_format, OF assms(2)]
  by (cases "add_entry d g") simp

lemma GDT_selectors:
  assumes doc: "add_entry_doc add_entry used" and "used gdt0 = 1"
  shows "snd (GDT add_entry gdt0 t) = \<lparr>code_selector = 0x08, data_selector = 0x10, tss_selector = 0x18,
    user_data_selector = 0x2B, user_code_selector = 0x33\<rparr>"
proof -
  obtain g1 where g1: "add_entry kernel_code_segment gdt0 = (0x08, g1)" "used g1 = 2"
    using add_entryD [OF doc, of gdt0 kernel_code_segment] assms(2) by (auto simp: slots_of_def ring_of_def)
  obtain g2 where g2: "add_entry kernel_data_segment g1 = (0x10, g2)" "used g2 = 3"
    using add_entryD [OF doc, of g1 kernel_data_segment] g1(2) by (auto simp: slots_of_def ring_of_def)
  obtain g3 where g3: "add_entry (tss_segment t) g2 = (0x18, g3)" "used g3 = 5"
    using add_entryD [OF doc, of g2 "tss_segment t"] g2(2) by (auto simp: slots_of_def ring_of_def)
  obtain g4 where g4: "add_entry user_data_segment g3 = (0x2B, g4)" "used g4 = 6"
    using add_entryD [OF doc, of g3 user_data_segment] g3(2) by (auto simp: slots_of_def ring_of_def)
  obtain g5 where g5: "add_entry user_code_segment g4 = (0x33, g5)"
    using add_entryD [OF doc, of g4 user_code_segment] g4(2) by (auto simp: slots_of_def ring_of_def)
  show ?thesis by (simp add: GDT_def g1 g2 g3 g4 g5)
qed

text \<open>A descriptor table of eight entries, as a list of what was added.\<close>

definition list_add_entry :: "(descriptor list) add_entry_fn" where
  "list_add_entry d g = (push_bit 3 (of_nat (1 + sum_list (map slots_of g))) OR ring_of d, g @ [d])"

lemma list_add_entry_doc: "add_entry_doc list_add_entry (\<lambda>g. 1 + sum_list (map slots_of g))"
  by (simp add: add_entry_doc_def list_add_entry_def)

end
