(* ===== verification/Memory.thy ===== *)
theory Memory
  imports Kernel_Prelude
begin

text \<open>
  \<^verbatim>\<open>src/memory.rs\<close>: the frame allocators. The boot loader's memory map is a list of regions; a
  frame is obtained from an address by \<open>frame_of\<close>, which stands for
  \<^verbatim>\<open>PhysFrame::containing_address(PhysAddr::new(addr))\<close> of the \<^verbatim>\<open>x86_64\<close> crate.

  \<open>LinearFrameAllocator\<close> walks the usable frames by index, \<open>BuddyAllocator\<close> by consuming an
  iterator. Both provide the interface \<open>frame_allocator\<close>: a state with a list of free frames, of
  which an allocation takes the first.
\<close>

section \<open>The memory map\<close>

text \<open>
  A region of \<^verbatim>\<open>bootloader::bootinfo::MemoryMap\<close>. \<open>is_usable\<close> is the only thing the sources ask
  of its type: \<^verbatim>\<open>r.region_type == MemoryRegionType::Usable\<close>.
\<close>

record memory_region =
  start_addr :: u64
  end_addr :: u64
  is_usable :: bool

text \<open>\<open>(lo..hi).step_by(n)\<close> over \<open>u64\<close>.\<close>

definition range_step :: "u64 \<Rightarrow> u64 \<Rightarrow> nat \<Rightarrow> u64 list" where
  "range_step lo hi n =
     map (\<lambda>i. lo + of_nat (i * n)) [0 ..< (unat hi - unat lo + (n - 1)) div n]"

definition frame_addresses :: "memory_region list \<Rightarrow> u64 list" where
  "frame_addresses memory_map =
     concat (map (\<lambda>r. range_step (start_addr r) (end_addr r) 4096) (filter is_usable memory_map))"

definition usable_frames :: "(u64 \<Rightarrow> 'f) \<Rightarrow> memory_region list \<Rightarrow> 'f list" where
  "usable_frames frame_of memory_map = map frame_of (frame_addresses memory_map)"

section \<open>The allocators\<close>

record linear_frame_allocator =
  lfa_memory_map :: "memory_region list"
  lfa_next :: usize

definition lfa_init :: "memory_region list \<Rightarrow> linear_frame_allocator" where
  "lfa_init memory_map = \<lparr>lfa_memory_map = memory_map, lfa_next = 0\<rparr>"

definition get_used :: "linear_frame_allocator \<Rightarrow> usize" where
  "get_used a = lfa_next a"

definition lfa_allocate_frame ::
  "bool \<Rightarrow> (u64 \<Rightarrow> 'f) \<Rightarrow> linear_frame_allocator \<Rightarrow> ('f option \<times> linear_frame_allocator) rust" where
  "lfa_allocate_frame oc frame_of a =
     bindE (add_ck oc (lfa_next a) 1) (\<lambda>n.
       Inr (get_opt (usable_frames frame_of (lfa_memory_map a)) (unat n), a\<lparr>lfa_next := n\<rparr>))"

record 'f buddy_allocator =
  ba_memory_map :: "memory_region list"
  frame_iter :: "'f list"

definition ba_init :: "(u64 \<Rightarrow> 'f) \<Rightarrow> memory_region list \<Rightarrow> usize \<Rightarrow> 'f buddy_allocator" where
  "ba_init frame_of memory_map used =
     \<lparr>ba_memory_map = memory_map,
      frame_iter = drop (unat used) (usable_frames frame_of memory_map)\<rparr>"

definition ba_allocate_frame :: "'f buddy_allocator \<Rightarrow> ('f option \<times> 'f buddy_allocator) rust" where
  "ba_allocate_frame b =
     (case frame_iter b of
        [] \<Rightarrow> Inr (None, b)
      | f # fs \<Rightarrow> Inr (Some f, b\<lparr>frame_iter := fs\<rparr>))"

text \<open>\<^verbatim>\<open>deallocate_frame\<close> is \<^verbatim>\<open>todo!()\<close>.\<close>

definition ba_deallocate_frame :: "'f \<Rightarrow> 'f buddy_allocator \<Rightarrow> 'f buddy_allocator rust" where
  "ba_deallocate_frame f b = Inl (ExplicitPanic ''not yet implemented'')"

section \<open>The physical memory mapping\<close>

text \<open>
  An \<^verbatim>\<open>OffsetPageTable\<close> is the virtual address of a level 4 table and the offset at which physical
  memory is mapped. \<open>cr3\<close> is the start address of the frame \<^verbatim>\<open>Cr3::read()\<close> returns.
\<close>

record offset_page_table =
  level_4_table :: u64
  phys_offset :: u64

definition active_level_4_table :: "bool \<Rightarrow> u64 \<Rightarrow> u64 \<Rightarrow> u64 rust" where
  "active_level_4_table oc cr3 physical_memory_offset = add_ck oc physical_memory_offset cr3"

definition memory_init :: "bool \<Rightarrow> u64 \<Rightarrow> u64 option \<Rightarrow> offset_page_table rust" where
  "memory_init oc cr3 boot_info_phys_offset =
     bindE (expect ''boot info not initialized'' boot_info_phys_offset) (\<lambda>off.
     bindE (active_level_4_table oc cr3 off) (\<lambda>l4.
     Inr \<lparr>level_4_table = l4, phys_offset = off\<rparr>))"

section \<open>Addresses of usable frames\<close>

lemma range_step_nth_bound:
  fixes lo hi :: u64
  assumes "i < (unat hi - unat lo + (n - 1)) div n" and "0 < n"
  shows "unat lo + i * n < unat hi"
proof -
  have "Suc i * n \<le> (unat hi - unat lo + (n - 1)) div n * n"
    using assms(1) by (intro mult_le_mono1) simp
  also have "\<dots> \<le> unat hi - unat lo + (n - 1)"
    by simp
  finally have "i * n + n \<le> unat hi - unat lo + (n - 1)"
    by simp
  with assms(2) show ?thesis by linarith
qed

lemma unat_range_step:
  fixes lo hi :: u64
  assumes "i < (unat hi - unat lo + (n - 1)) div n" and "0 < n"
  shows "unat (lo + of_nat (i * n) :: u64) = unat lo + i * n"
proof -
  have lt: "unat lo + i * n < 2 ^ 64"
    using range_step_nth_bound [OF assms] unat_less_u64 [of hi] by simp
  then have "unat (of_nat (i * n) :: u64) = i * n"
    by (simp add: unat_of_nat_small del: of_nat_mult)
  with lt show ?thesis
    by (simp add: unat_add_small)
qed

lemma range_step_bounds:
  assumes "a \<in> set (range_step lo hi n)" and "0 < n"
  shows "unat lo \<le> unat a \<and> unat a < unat hi \<and> (unat a - unat lo) mod n = 0"
  using assms by (auto simp: range_step_def unat_range_step range_step_nth_bound simp del: of_nat_mult)

lemma distinct_range_step:
  assumes "0 < n"
  shows "distinct (range_step lo hi n)"
proof -
  have "inj_on (\<lambda>i. lo + of_nat (i * n) :: u64) {0 ..< (unat hi - unat lo + (n - 1)) div n}"
  proof (rule inj_onI)
    fix i j
    assume i: "i \<in> {0 ..< (unat hi - unat lo + (n - 1)) div n}"
      and j: "j \<in> {0 ..< (unat hi - unat lo + (n - 1)) div n}"
      and eq: "lo + of_nat (i * n) = (lo + of_nat (j * n) :: u64)"
    from eq have "unat (lo + of_nat (i * n) :: u64) = unat (lo + of_nat (j * n) :: u64)"
      by simp
    with i j assms show "i = j"
      by (simp add: unat_range_step del: of_nat_mult)
  qed
  then show ?thesis
    by (simp add: range_step_def distinct_map)
qed

text \<open>
  The boot loader promises a memory map of disjoint regions; this is its executable form for the
  usable ones.
\<close>

definition disjoint_regions :: "memory_region \<Rightarrow> memory_region \<Rightarrow> bool" where
  "disjoint_regions r q \<longleftrightarrow> end_addr r \<le> start_addr q \<or> end_addr q \<le> start_addr r"

fun valid_memory_map :: "memory_region list \<Rightarrow> bool" where
  "valid_memory_map [] = True"
| "valid_memory_map (r # rs) =
     ((is_usable r \<longrightarrow> (\<forall>q \<in> set rs. is_usable q \<longrightarrow> disjoint_regions r q)) \<and> valid_memory_map rs)"

lemma frame_addresses_Cons:
  "frame_addresses (r # rs) =
     (if is_usable r then range_step (start_addr r) (end_addr r) 4096 else []) @ frame_addresses rs"
  by (simp add: frame_addresses_def)

lemma frame_addresses_in_region:
  assumes "a \<in> set (frame_addresses m)"
  shows "\<exists>r \<in> set m. is_usable r \<and> start_addr r \<le> a \<and> a < end_addr r"
  using assms
  by (fastforce simp: frame_addresses_def word_le_nat_alt word_less_nat_alt dest: range_step_bounds)

lemma distinct_frame_addresses:
  "valid_memory_map m \<Longrightarrow> distinct (frame_addresses m)"
proof (induction m)
  case Nil
  then show ?case by (simp add: frame_addresses_def)
next
  case (Cons r rs)
  have "set (range_step (start_addr r) (end_addr r) 4096) \<inter> set (frame_addresses rs) = {}"
    if u: "is_usable r"
  proof (rule equals0I)
    fix a assume a: "a \<in> set (range_step (start_addr r) (end_addr r) 4096) \<inter> set (frame_addresses rs)"
    then have "start_addr r \<le> a" "a < end_addr r"
      using range_step_bounds [of a "start_addr r" "end_addr r" 4096]
      by (auto simp: word_le_nat_alt word_less_nat_alt)
    moreover obtain q where "q \<in> set rs" "is_usable q" "start_addr q \<le> a" "a < end_addr q"
      using a frame_addresses_in_region by blast
    moreover have "disjoint_regions r q"
      using Cons.prems u \<open>q \<in> set rs\<close> \<open>is_usable q\<close> by simp
    ultimately show False
      by (auto simp: disjoint_regions_def)
  qed
  with Cons show ?case
    by (auto simp: frame_addresses_Cons distinct_range_step)
qed

lemma distinct_usable_frames:
  assumes "valid_memory_map m" and "inj_on frame_of (set (frame_addresses m))"
  shows "distinct (usable_frames frame_of m)"
  using assms by (simp add: usable_frames_def distinct_map distinct_frame_addresses)

section \<open>The allocator interface\<close>

text \<open>A client that asks for \<open>k\<close> frames one after the other.\<close>

fun alloc_seq :: "('s \<Rightarrow> ('f option \<times> 's) rust) \<Rightarrow> nat \<Rightarrow> 's \<Rightarrow> ('f option list \<times> 's) rust" where
  "alloc_seq alloc 0 s = Inr ([], s)"
| "alloc_seq alloc (Suc k) s =
     bindE (alloc s) (\<lambda>(f, s'). bindE (alloc_seq alloc k s') (\<lambda>(fs, s''). Inr (f # fs, s'')))"

text \<open>
  What a provider of \<^verbatim>\<open>FrameAllocator<Size4KiB>\<close> promises: \<open>free s\<close> lists the frames still to be handed
  out, an allocation takes the first of them, and an exhausted allocator answers \<open>None\<close>.
\<close>

locale frame_allocator =
  fixes alloc :: "'s \<Rightarrow> ('f option \<times> 's) rust"
    and free :: "'s \<Rightarrow> 'f list"
    and inv :: "'s \<Rightarrow> bool"
  assumes alloc_Cons:
      "inv s \<Longrightarrow> free s = f # fs \<Longrightarrow> \<exists>s'. alloc s = Inr (Some f, s') \<and> inv s' \<and> free s' = fs"
    and alloc_Nil:
      "inv s \<Longrightarrow> free s = [] \<Longrightarrow> \<exists>s'. alloc s = Inr (None, s')"
begin

lemma alloc_seq_take:
  assumes "inv s" and "k \<le> length (free s)"
  shows "\<exists>s'. alloc_seq alloc k s = Inr (map Some (take k (free s)), s') \<and>
               inv s' \<and> free s' = drop k (free s)"
  using assms
proof (induction k arbitrary: s)
  case 0
  then show ?case by simp
next
  case (Suc k)
  then obtain f fs where fs: "free s = f # fs"
    by (cases "free s") auto
  with Suc.prems obtain s1 where s1: "alloc s = Inr (Some f, s1)" "inv s1" "free s1 = fs"
    using alloc_Cons by blast
  with Suc.IH [of s1] Suc.prems fs obtain s2 where
    "alloc_seq alloc k s1 = Inr (map Some (take k fs), s2)" "inv s2" "free s2 = drop k fs"
    by auto
  with s1 fs show ?case by simp
qed

lemma alloc_some_iff:
  assumes "inv s" and "alloc s = Inr (r, s')"
  shows "(r = None \<longleftrightarrow> free s = []) \<and> (\<forall>f. r = Some f \<longrightarrow> inv s' \<and> free s = f # free s')"
  using assms alloc_Cons [of s] alloc_Nil [of s] by (cases "free s") auto

lemma no_frame_twice:
  assumes "inv s" and "distinct (free s)" and "i < j" and "j < length (free s)"
    and "alloc_seq alloc (Suc j) s = Inr (fs, s')"
  shows "fs ! i \<noteq> fs ! j"
proof -
  have "fs = map Some (take (Suc j) (free s))"
    using alloc_seq_take [OF assms(1), of "Suc j"] assms(4,5) by auto
  with assms(2-4) show ?thesis
    by (simp add: nth_eq_iff_index_eq)
qed

end

subsection \<open>Both allocators provide the interface\<close>

text \<open>
  The linear allocator increments its index before it reads: the frames it can still hand out start
  one past its index, and the usable frame at index 0 is never among them.
\<close>

definition lfa_free :: "(u64 \<Rightarrow> 'f) \<Rightarrow> linear_frame_allocator \<Rightarrow> 'f list" where
  "lfa_free frame_of a = drop (Suc (unat (lfa_next a))) (usable_frames frame_of (lfa_memory_map a))"

definition lfa_inv :: "(u64 \<Rightarrow> 'f) \<Rightarrow> linear_frame_allocator \<Rightarrow> bool" where
  "lfa_inv frame_of a \<longleftrightarrow>
     unat (lfa_next a) \<le> length (frame_addresses (lfa_memory_map a)) \<and>
     length (frame_addresses (lfa_memory_map a)) < 2 ^ 64 - 1"

lemma lfa_next_Suc:
  assumes "lfa_inv frame_of a"
  shows "add_ck oc (lfa_next a) 1 = Inr (lfa_next a + 1)"
    and "unat (lfa_next a + 1) = Suc (unat (lfa_next a))"
proof -
  have lt: "unat (lfa_next a) + unat (1 :: usize) < 2 ^ LENGTH(64)"
    using assms by (simp add: lfa_inv_def)
  then show "add_ck oc (lfa_next a) 1 = Inr (lfa_next a + 1)"
    by (rule add_ck_ok)
  show "unat (lfa_next a + 1) = Suc (unat (lfa_next a))"
    using unat_add_small [OF lt] by simp
qed

interpretation linear: frame_allocator
  "lfa_allocate_frame oc frame_of" "lfa_free frame_of" "lfa_inv frame_of"
  for oc :: bool and frame_of :: "u64 \<Rightarrow> 'f"
proof unfold_locales
  fix a f and fs :: "'f list"
  assume inv: "lfa_inv frame_of a" and free: "lfa_free frame_of a = f # fs"
  let ?u = "usable_frames frame_of (lfa_memory_map a)"
  have lt: "Suc (unat (lfa_next a)) < length ?u"
    using free by (cases "Suc (unat (lfa_next a)) < length ?u") (auto simp: lfa_free_def)
  with free have "f = ?u ! Suc (unat (lfa_next a))" and "fs = drop (Suc (Suc (unat (lfa_next a)))) ?u"
    by (auto simp: lfa_free_def Cons_nth_drop_Suc [symmetric])
  with lt inv show "\<exists>s'. lfa_allocate_frame oc frame_of a = Inr (Some f, s') \<and>
      lfa_inv frame_of s' \<and> lfa_free frame_of s' = fs"
    by (simp add: lfa_allocate_frame_def lfa_next_Suc lfa_free_def lfa_inv_def usable_frames_def)
next
  fix a assume "lfa_inv frame_of a" and "lfa_free frame_of a = []"
  then show "\<exists>s'. lfa_allocate_frame oc frame_of a = Inr (None, s')"
    by (simp add: lfa_allocate_frame_def lfa_next_Suc lfa_free_def)
qed

interpretation buddy: frame_allocator
  "ba_allocate_frame :: 'f buddy_allocator \<Rightarrow> _" frame_iter "\<lambda>_. True"
  by unfold_locales (auto simp: ba_allocate_frame_def)

section \<open>Properties\<close>

lemma lfa_init_free:
  "lfa_free frame_of (lfa_init m) = drop 1 (usable_frames frame_of m)"
  by (simp add: lfa_free_def lfa_init_def)

lemma lfa_alloc_seq_next:
  assumes "lfa_inv frame_of a" and "k < length (lfa_free frame_of a) + 1"
    and "alloc_seq (lfa_allocate_frame oc frame_of) k a = Inr (fs, a')"
  shows "lfa_memory_map a' = lfa_memory_map a \<and> unat (lfa_next a') = unat (lfa_next a) + k"
  using assms
proof (induction k arbitrary: a fs a')
  case 0
  then show ?case by simp
next
  case (Suc k)
  from Suc.prems(1,2) obtain f rest where cons: "lfa_free frame_of a = f # rest"
    by (cases "lfa_free frame_of a") auto
  obtain a1 where a1: "lfa_allocate_frame oc frame_of a = Inr (Some f, a1)"
    and inv1: "lfa_inv frame_of a1" and free1: "lfa_free frame_of a1 = rest"
    using linear.alloc_Cons [OF Suc.prems(1) cons, of oc] by auto
  from a1 have "a1 = a\<lparr>lfa_next := lfa_next a + 1\<rparr>"
    by (simp add: lfa_allocate_frame_def lfa_next_Suc(1) [OF Suc.prems(1)])
  then have step: "lfa_memory_map a1 = lfa_memory_map a"
    "unat (lfa_next a1) = Suc (unat (lfa_next a))"
    using lfa_next_Suc(2) [OF Suc.prems(1)] by simp_all
  from Suc.prems(3) a1 obtain fs' where rest:
    "alloc_seq (lfa_allocate_frame oc frame_of) k a1 = Inr (fs', a')"
    by (auto simp: bindE_eq_Inr split: prod.splits)
  have "k < length (lfa_free frame_of a1) + 1"
    using Suc.prems(2) cons free1 by simp
  from Suc.IH [OF inv1 this rest] step show ?case
    by simp
qed



text \<open>The handover from the linear allocator to the buddy allocator, as \<^verbatim>\<open>lobster::init\<close> performs it,
  gives the last frame of the kernel heap away a second time. After \<open>k > 0\<close> allocations the linear
  allocator has returned the usable frames 1 to \<open>k\<close> (never frame 0) and reports \<open>k\<close> used frames;
  the buddy allocator skips \<open>k\<close> frames, so that its first frame is frame \<open>k\<close>, the one the linear
  allocator returned last.\<close>

theorem handover_reuses_last_frame:
  assumes "length (frame_addresses m) < 2 ^ 64 - 1"
    and "0 < k" and "k < length (usable_frames frame_of m)"
  shows "\<exists>fs a b. alloc_seq (lfa_allocate_frame oc frame_of) k (lfa_init m) = Inr (fs, a) \<and>
           fs = map Some (take k (drop 1 (usable_frames frame_of m))) \<and>
           unat (get_used a) = k \<and>
           ba_allocate_frame (ba_init frame_of m (get_used a)) = Inr (last fs, b)"
proof -
  let ?u = "usable_frames frame_of m"
  have inv: "lfa_inv frame_of (lfa_init m)"
    using assms(1) by (simp add: lfa_inv_def lfa_init_def)
  have len: "k \<le> length (lfa_free frame_of (lfa_init m))"
    using assms(3) by (simp add: lfa_init_free)
  obtain a where run: "alloc_seq (lfa_allocate_frame oc frame_of) k (lfa_init m) =
      Inr (map Some (take k (drop 1 ?u)), a)"
    using linear.alloc_seq_take [OF inv len, of oc] by (auto simp: lfa_init_free)
  have used: "unat (get_used a) = k"
    using lfa_alloc_seq_next [OF inv _ run] len by (simp add: get_used_def lfa_init_def)
  have "last (map Some (take k (drop 1 ?u))) = Some (?u ! k)"
    using assms(2,3) by (simp add: last_conv_nth)
  moreover have "drop k ?u = ?u ! k # drop (Suc k) ?u"
    using assms(3) by (simp add: Cons_nth_drop_Suc)
  ultimately show ?thesis
    using run used by (simp add: ba_allocate_frame_def ba_init_def)
qed

theorem handover_reuses_last_frame_witness:
  "\<exists>fs a b. alloc_seq (lfa_allocate_frame True id) 2
       (lfa_init [\<lparr>start_addr = 0x1000, end_addr = 0x5000, is_usable = True\<rparr>]) = Inr (fs, a) \<and>
     fs = [Some 0x2000, Some 0x3000] \<and>
     ba_allocate_frame (ba_init id [\<lparr>start_addr = 0x1000, end_addr = 0x5000, is_usable = True\<rparr>]
       (get_used a)) = Inr (Some 0x3000, b)"
proof -
  let ?m = "[\<lparr>start_addr = 0x1000, end_addr = 0x5000, is_usable = True\<rparr>]"
  have fa: "frame_addresses ?m = [0x1000, 0x2000, 0x3000, 0x4000]"
    by (simp add: frame_addresses_def range_step_def upt_eval)
  show ?thesis
    using handover_reuses_last_frame [where m = ?m and k = 2 and frame_of = id and oc = True]
    by (auto simp: fa usable_frames_def)
qed

end
