(* ===== verification/Paging.thy ===== *)
theory Paging
  imports Memory "HOL-Library.Sublist"
begin

text \<open>
  What the kernel uses of the \<^verbatim>\<open>x86_64\<close> crate's page mapping. A page and a virtual address are \<open>u64\<close>,
  a page being named by its start address. The crate's operations are parameters of the
  definitions that call them:
  \<^item> \<open>page_range a b\<close> is \<^verbatim>\<open>Page::range_inclusive(Page::containing_address(a), Page::containing_address(b))\<close>;
  \<^item> \<open>map_to\<close> is \<^verbatim>\<open>Mapper::map_to\<close>, already applied to the frame allocator it may draw page table
    frames from, over a mapper state \<open>'m\<close> and an allocator state \<open>'s\<close>.
  \<open>page_range_doc\<close> and \<open>map_to_contract\<close> state their documented behaviour.
\<close>

datatype page_flag = PRESENT | WRITABLE | USER_ACCESSIBLE

datatype map_to_error = FrameAllocationFailed | ParentEntryHugePage | PageAlreadyMapped

type_synonym ('f, 'm, 's) map_to_fn =
  "u64 \<Rightarrow> 'f \<Rightarrow> page_flag set \<Rightarrow> 'm \<Rightarrow> 's \<Rightarrow> ((map_to_error + unit) \<times> 'm \<times> 's) rust"

text \<open>The start addresses of the pages from the one that contains \<open>a\<close> to the one that contains \<open>b\<close>.\<close>

definition inclusive_pages :: "u64 \<Rightarrow> u64 \<Rightarrow> u64 list" where
  "inclusive_pages a b = map (\<lambda>i. of_nat (4096 * i)) [unat a div 4096 ..< unat b div 4096 + 1]"

definition page_range_doc :: "(u64 \<Rightarrow> u64 \<Rightarrow> u64 list) \<Rightarrow> bool" where
  "page_range_doc page_range \<longleftrightarrow> (\<forall>a b. page_range a b = inclusive_pages a b)"

text \<open>
  \<open>lookup m\<close> is the translation table of the mapper: the frame and the flags each page is mapped with.
  A successful \<^verbatim>\<open>map_to\<close> maps a page that was not mapped, changes no other page, and takes what it
  needs for page tables from the front of the allocator's free frames.
\<close>

definition map_to_contract ::
  "('f, 'm, 's) map_to_fn \<Rightarrow> ('m \<Rightarrow> u64 \<rightharpoonup> 'f \<times> page_flag set) \<Rightarrow> ('s \<Rightarrow> 'f list) \<Rightarrow> ('s \<Rightarrow> bool) \<Rightarrow> bool" where
  "map_to_contract map_to lookup free good \<longleftrightarrow>
     (\<forall>page f fl m s m' s'. good s \<longrightarrow> map_to page f fl m s = Inr (Inr (), m', s') \<longrightarrow>
        lookup m page = None \<and> lookup m' = (lookup m)(page \<mapsto> (f, fl)) \<and>
        good s' \<and> (\<exists>k. free s' = drop k (free s)))"

text \<open>A mapped page is not mapped again: the crate reports \<^verbatim>\<open>PageAlreadyMapped\<close>.\<close>

definition map_to_refuses ::
  "('f, 'm, 's) map_to_fn \<Rightarrow> ('m \<Rightarrow> u64 \<rightharpoonup> 'f \<times> page_flag set) \<Rightarrow> bool" where
  "map_to_refuses map_to lookup \<longleftrightarrow>
     (\<forall>page f fl m s. lookup m page \<noteq> None \<longrightarrow>
        (\<exists>m' s'. map_to page f fl m s = Inr (Inl PageAlreadyMapped, m', s')))"

lemma map_to_contractD:
  assumes "map_to_contract map_to lookup free good" and "good s"
    and "map_to page f fl m s = Inr (Inr (), m', s')"
  shows "lookup m page = None" and "lookup m' = (lookup m)(page \<mapsto> (f, fl))" and "good s'"
    and "\<exists>k. free s' = drop k (free s)"
  using assms(1) [unfolded map_to_contract_def, rule_format, OF assms(2,3)] by simp_all

lemma zip_mapped_at:
  assumes "distinct pages" and "length fs = length pages" and "i < length pages"
  shows "(m ++ map_of (zip pages (map (\<lambda>f. (f, fl)) fs))) (pages ! i) = Some (fs ! i, fl)"
  using assms by (simp add: map_add_Some_iff map_of_zip_nth)

lemma subseq_drop: "subseq (drop k xs) xs"
  by (metis append_take_drop_id list_emb_append2 subseq_order.order_refl)

lemma subseq_distinctD: "subseq xs ys \<Longrightarrow> distinct ys \<Longrightarrow> distinct xs"
  by (metis distinct_nthsI subseq_conv_nths)

end
