(* ===== verification/Fixed_Block.thy ===== *)
theory Fixed_Block
  imports Kernel_Prelude
begin

text \<open>
  \<^verbatim>\<open>src/allocator/fixed_block.rs\<close>: the kernel heap, a fixed-size block allocator with one intrusive
  free list per block size and a \<^verbatim>\<open>linked_list_allocator::Heap\<close> behind it.

  Addresses are \<open>u64\<close>. A free block holds a \<^verbatim>\<open>ListNode\<close>; \<open>node_next\<close> is the memory the nodes live
  in, from the address of a node to its \<^verbatim>\<open>next\<close> field. The fallback heap is code outside the
  repository: its state has type \<open>'h\<close> and its operations are the arguments \<open>first_fit\<close>
  (\<^verbatim>\<open>allocate_first_fit\<close>, \<open>None\<close> for \<^verbatim>\<open>Err\<close>) and \<open>release\<close> (\<^verbatim>\<open>deallocate\<close>). What the allocator relies
  on is \<open>heap_contract\<close>.
\<close>

section \<open>Layouts and block classes\<close>

record layout =
  lsize :: usize
  lalign :: usize

definition is_power_of_two :: "usize \<Rightarrow> bool" where
  "is_power_of_two a \<longleftrightarrow> a \<noteq> 0 \<and> a AND (a - 1) = 0"

text \<open>\<^verbatim>\<open>core::alloc::Layout::from_size_align\<close>: the size rounded up to the alignment must fit \<^verbatim>\<open>isize\<close>.\<close>

definition from_size_align :: "usize \<Rightarrow> usize \<Rightarrow> layout option" where
  "from_size_align sz al =
     (if is_power_of_two al \<and> unat sz + (unat al - 1) \<le> 2 ^ 63 - 1
      then Some \<lparr>lsize = sz, lalign = al\<rparr> else None)"

definition BLOCK_SIZES :: "usize list" where
  "BLOCK_SIZES = [8, 16, 32, 64, 128, 256, 512, 1024, 2048]"

definition block_index :: "layout \<Rightarrow> nat option" where
  "block_index l =
     (let required_block_size = max (lsize l) (lalign l)
      in position (\<lambda>block_size. required_block_size \<le> block_size) BLOCK_SIZES)"

section \<open>The allocator\<close>

record 'h fixed_block_alloc =
  list_heads :: "u64 option list"
  node_next :: "u64 \<Rightarrow> u64 option"
  fallback :: 'h

definition fba_new :: "'h \<Rightarrow> (u64 \<Rightarrow> u64 option) \<Rightarrow> 'h fixed_block_alloc" where
  "fba_new empty_heap m =
     \<lparr>list_heads = replicate (length BLOCK_SIZES) None, node_next = m, fallback = empty_heap\<rparr>"

definition fba_init ::
  "('h \<Rightarrow> u64 \<Rightarrow> usize \<Rightarrow> 'h) \<Rightarrow> usize \<Rightarrow> usize \<Rightarrow> 'h fixed_block_alloc \<Rightarrow> 'h fixed_block_alloc" where
  "fba_init heap_init heap_start heap_size a =
     a\<lparr>fallback := heap_init (fallback a) heap_start heap_size\<rparr>"

definition fallback_alloc ::
  "('h \<Rightarrow> layout \<Rightarrow> u64 option \<times> 'h) \<Rightarrow> layout \<Rightarrow> 'h fixed_block_alloc \<Rightarrow> u64 \<times> 'h fixed_block_alloc" where
  "fallback_alloc first_fit l a =
     (case first_fit (fallback a) l of
        (Some ptr, h) \<Rightarrow> (ptr, a\<lparr>fallback := h\<rparr>)
      | (None, h) \<Rightarrow> (0, a\<lparr>fallback := h\<rparr>))"

definition alloc ::
  "('h \<Rightarrow> layout \<Rightarrow> u64 option \<times> 'h) \<Rightarrow> layout \<Rightarrow> 'h fixed_block_alloc \<Rightarrow>
   (u64 \<times> 'h fixed_block_alloc) rust" where
  "alloc first_fit l a =
     (case block_index l of
        Some index \<Rightarrow>
          bindE (index_ck (list_heads a) index) (\<lambda>head.
          (case head of
             Some node \<Rightarrow>
               Inr (node, a\<lparr>list_heads := (list_heads a)[index := node_next a node],
                            node_next := (node_next a)(node := None)\<rparr>)
           | None \<Rightarrow>
               (let block_size = BLOCK_SIZES ! index; block_align = block_size
                in bindE (expect ''unwrap'' (from_size_align block_size block_align)) (\<lambda>bl.
                   Inr (fallback_alloc first_fit bl a)))))
      | None \<Rightarrow> Inr (fallback_alloc first_fit l a))"

definition dealloc ::
  "('h \<Rightarrow> u64 \<Rightarrow> layout \<Rightarrow> 'h) \<Rightarrow> u64 \<Rightarrow> layout \<Rightarrow> 'h fixed_block_alloc \<Rightarrow> 'h fixed_block_alloc rust" where
  "dealloc release ptr l a =
     (case block_index l of
        Some index \<Rightarrow>
          bindE (index_ck (list_heads a) index) (\<lambda>head.
          if \<not> 8 \<le> BLOCK_SIZES ! index then Inl (ExplicitPanic ''assertion failed'')
          else Inr (a\<lparr>node_next := (node_next a)(ptr := head),
                      list_heads := (list_heads a)[index := Some ptr]\<rparr>))
      | None \<Rightarrow>
          if ptr = 0 then Inl (UnwrapFailed ''unwrap'')
          else Inr (a\<lparr>fallback := release (fallback a) ptr l\<rparr>))"

section \<open>Block classes\<close>

lemma length_BLOCK_SIZES [simp]: "length BLOCK_SIZES = 9"
  by (simp add: BLOCK_SIZES_def)

lemma nine_cases:
  assumes "i < 9"
  obtains "i = 0" | "i = 1" | "i = 2" | "i = 3" | "i = 4" | "i = 5" | "i = 6" | "i = 7" | "i = (8 :: nat)"
  using assms by linarith

lemma BLOCK_SIZES_power:
  assumes "i < 9"
  shows "BLOCK_SIZES ! i = 2 ^ (i + 3)" and "unat (BLOCK_SIZES ! i) = 2 ^ (i + 3)"
  using assms by (cases rule: nine_cases; simp add: BLOCK_SIZES_def)+

lemma BLOCK_SIZES_layout:
  "i < 9 \<Longrightarrow> from_size_align (BLOCK_SIZES ! i) (BLOCK_SIZES ! i) =
     Some \<lparr>lsize = BLOCK_SIZES ! i, lalign = BLOCK_SIZES ! i\<rparr>"
  by (cases rule: nine_cases [of i]; simp add: BLOCK_SIZES_def from_size_align_def is_power_of_two_def)

lemma block_index_Some:
  "block_index l = Some i \<longleftrightarrow>
     i < 9 \<and> lsize l \<le> BLOCK_SIZES ! i \<and> lalign l \<le> BLOCK_SIZES ! i \<and>
     (\<forall>j < i. \<not> (lsize l \<le> BLOCK_SIZES ! j \<and> lalign l \<le> BLOCK_SIZES ! j))"
  by (simp add: block_index_def Let_def position_Some)

lemma block_index_less: "block_index l = Some i \<Longrightarrow> i < 9"
  by (simp add: block_index_Some)

lemma block_index_None:
  "block_index l = None \<longleftrightarrow> 2048 < lsize l \<or> 2048 < lalign l"
proof -
  have "block_index l = None \<longleftrightarrow> (\<forall>b \<in> set BLOCK_SIZES. \<not> max (lsize l) (lalign l) \<le> b)"
    by (simp add: block_index_def Let_def position_None)
  also have "\<dots> \<longleftrightarrow> 2048 < max (lsize l) (lalign l)"
  proof
    assume "2048 < max (lsize l) (lalign l)"
    moreover have "b \<le> 2048" if "b \<in> set BLOCK_SIZES" for b
      using that by (auto simp: BLOCK_SIZES_def)
    ultimately show "\<forall>b \<in> set BLOCK_SIZES. \<not> max (lsize l) (lalign l) \<le> b"
      by (meson leD order.strict_trans1 order_trans)
  qed (simp add: BLOCK_SIZES_def not_le less_max_iff_disj)
  finally show ?thesis by (simp add: less_max_iff_disj)
qed

section \<open>What the allocator relies on and what it keeps\<close>

type_synonym chunk = "u64 \<times> usize"

definition extent :: "chunk \<Rightarrow> nat set" where
  "extent c = {unat (fst c) ..< unat (fst c) + unat (snd c)}"

definition apart :: "chunk \<Rightarrow> chunk \<Rightarrow> bool" where
  "apart c d \<longleftrightarrow> extent c \<inter> extent d = {}"

text \<open>A layout a client may pass: \<^verbatim>\<open>GlobalAlloc\<close> demands a positive size, \<^verbatim>\<open>Layout\<close> a power of two.\<close>

definition valid_layout :: "layout \<Rightarrow> bool" where
  "valid_layout l \<longleftrightarrow> 0 < lsize l \<and> (\<exists>k \<in> {..<64}. lalign l = 2 ^ k)"

text \<open>
  The documented behaviour of the fallback heap over the region \<open>lo\<close> to \<open>hi\<close>: \<open>out h\<close> is the set of
  chunks it has handed out and \<open>ok h\<close> its own invariant. A successful allocation returns an aligned
  chunk of the region apart from all the others; a failed one changes nothing; a chunk that is given
  back with its layout is no longer out.
\<close>

definition heap_contract ::
  "('h \<Rightarrow> layout \<Rightarrow> u64 option \<times> 'h) \<Rightarrow> ('h \<Rightarrow> u64 \<Rightarrow> layout \<Rightarrow> 'h) \<Rightarrow>
   ('h \<Rightarrow> bool) \<Rightarrow> ('h \<Rightarrow> chunk set) \<Rightarrow> nat \<Rightarrow> nat \<Rightarrow> bool" where
  "heap_contract first_fit release ok out lo hi \<longleftrightarrow>
     0 < lo \<and>
     (\<forall>h l p h'. ok h \<and> valid_layout l \<and> first_fit h l = (Some p, h') \<longrightarrow>
        ok h' \<and> out h' = insert (p, lsize l) (out h) \<and> (\<forall>c \<in> out h. apart (p, lsize l) c) \<and>
        lo \<le> unat p \<and> unat p + unat (lsize l) \<le> hi \<and> unat (lalign l) dvd unat p) \<and>
     (\<forall>h l h'. ok h \<and> first_fit h l = (None, h') \<longrightarrow> ok h' \<and> out h' = out h) \<and>
     (\<forall>h p l. ok h \<and> (p, lsize l) \<in> out h \<longrightarrow>
        ok (release h p l) \<and> out (release h p l) = out h - {(p, lsize l)})"

text \<open>The linked list of free blocks that starts at a head.\<close>

fun chain :: "(u64 \<Rightarrow> u64 option) \<Rightarrow> u64 option \<Rightarrow> u64 list \<Rightarrow> bool" where
  "chain m head [] \<longleftrightarrow> head = None"
| "chain m head (p # ps) \<longleftrightarrow> head = Some p \<and> chain m (m p) ps"

lemma chain_None [simp]: "chain m None ps \<longleftrightarrow> ps = []"
  by (cases ps) auto

lemma chain_Some: "chain m (Some p) ps \<longleftrightarrow> (\<exists>qs. ps = p # qs \<and> chain m (m p) qs)"
  by (cases ps) auto

lemma chain_upd: "p \<notin> set ps \<Longrightarrow> chain (m(p := v)) head ps \<longleftrightarrow> chain m head ps"
  by (induction ps arbitrary: head) auto

text \<open>The chunk a client's layout is served from.\<close>

definition block_size_of :: "layout \<Rightarrow> usize" where
  "block_size_of l = (case block_index l of Some i \<Rightarrow> BLOCK_SIZES ! i | None \<Rightarrow> lsize l)"

definition live_chunk :: "u64 \<times> layout \<Rightarrow> chunk" where
  "live_chunk x = (fst x, block_size_of (snd x))"

text \<open>
  The chunks the allocator owns: the blocks of the free lists \<open>free 0\<close> to \<open>free 8\<close> and the blocks
  that are \<open>live\<close>, handed out to clients and not returned.
\<close>

definition class_chunks :: "nat \<Rightarrow> u64 list \<Rightarrow> chunk set" where
  "class_chunks i ps = (\<lambda>p. (p, BLOCK_SIZES ! i)) ` set ps"

definition owned :: "(nat \<Rightarrow> u64 list) \<Rightarrow> (u64 \<times> layout) set \<Rightarrow> chunk set" where
  "owned free live = (\<Union>i < 9. class_chunks i (free i)) \<union> live_chunk ` live"

definition separated :: "nat \<Rightarrow> nat \<Rightarrow> chunk set \<Rightarrow> bool" where
  "separated lo hi C \<longleftrightarrow>
     (\<forall>c \<in> C. \<forall>d \<in> C. c \<noteq> d \<longrightarrow> apart c d) \<and>
     (\<forall>c \<in> C. 0 < unat (snd c) \<and> lo \<le> unat (fst c) \<and> unat (fst c) + unat (snd c) \<le> hi)"

definition live_ok :: "u64 \<times> layout \<Rightarrow> bool" where
  "live_ok x \<longleftrightarrow> valid_layout (snd x) \<and> unat (lalign (snd x)) dvd unat (fst x) \<and>
     (\<forall>i. block_index (snd x) = Some i \<longrightarrow> unat (BLOCK_SIZES ! i) dvd unat (fst x))"

definition heap_inv ::
  "('h \<Rightarrow> bool) \<Rightarrow> ('h \<Rightarrow> chunk set) \<Rightarrow> nat \<Rightarrow> nat \<Rightarrow>
   (nat \<Rightarrow> u64 list) \<Rightarrow> (u64 \<times> layout) set \<Rightarrow> 'h fixed_block_alloc \<Rightarrow> bool" where
  "heap_inv ok out lo hi free live a \<longleftrightarrow>
     length (list_heads a) = 9 \<and> ok (fallback a) \<and>
     (\<forall>i < 9. chain (node_next a) (list_heads a ! i) (free i) \<and> distinct (free i) \<and>
             (\<forall>p \<in> set (free i). unat (BLOCK_SIZES ! i) dvd unat p)) \<and>
     (\<forall>i < 9. \<forall>j < 9. i \<noteq> j \<longrightarrow> set (free i) \<inter> set (free j) = {}) \<and>
     (\<forall>x \<in> live. live_ok x \<and> (\<forall>i < 9. fst x \<notin> set (free i))) \<and> inj_on fst live \<and>
     out (fallback a) = owned free live \<and> separated lo hi (owned free live)"

lemma apart_sym: "apart c d \<longleftrightarrow> apart d c"
  by (auto simp: apart_def)

lemma apart_fst:
  assumes "apart c d" and "0 < unat (snd c)" and "0 < unat (snd d)"
  shows "fst c \<noteq> fst d"
proof
  assume "fst c = fst d"
  then have "unat (fst c) \<in> extent c \<inter> extent d"
    using assms(2,3) by (simp add: extent_def)
  with assms(1) show False by (auto simp: apart_def)
qed

lemma separated_sizeD: "separated lo hi C \<Longrightarrow> c \<in> C \<Longrightarrow> 0 < unat (snd c)"
  by (simp add: separated_def)

lemma separated_lowD: "separated lo hi C \<Longrightarrow> c \<in> C \<Longrightarrow> lo \<le> unat (fst c)"
  by (simp add: separated_def)

lemma separated_overlap:
  "separated lo hi C \<Longrightarrow> c \<in> C \<Longrightarrow> d \<in> C \<Longrightarrow> x \<in> extent c \<Longrightarrow> x \<in> extent d \<Longrightarrow> c = d"
  by (auto simp: separated_def apart_def)

lemma separated_insert:
  assumes "separated lo hi C" and "\<forall>d \<in> C. apart c d"
    and "0 < unat (snd c)" and "lo \<le> unat (fst c)" and "unat (fst c) + unat (snd c) \<le> hi"
  shows "separated lo hi (insert c C)"
  using assms by (auto simp: separated_def apart_sym)

lemma separated_subset: "separated lo hi C \<Longrightarrow> D \<subseteq> C \<Longrightarrow> separated lo hi D"
  unfolding separated_def by (meson subsetD)

lemma live_chunk_Some: "block_index l = Some i \<Longrightarrow> live_chunk (p, l) = (p, BLOCK_SIZES ! i)"
  by (simp add: live_chunk_def block_size_of_def)

lemma live_chunk_None: "block_index l = None \<Longrightarrow> live_chunk (p, l) = (p, lsize l)"
  by (simp add: live_chunk_def block_size_of_def)

lemma fst_live_chunk [simp]: "fst (live_chunk x) = fst x"
  by (simp add: live_chunk_def)

lemma owned_insert: "owned free (insert x live) = insert (live_chunk x) (owned free live)"
  by (auto simp: owned_def)

lemma owned_free: "i < 9 \<Longrightarrow> p \<in> set (free i) \<Longrightarrow> (p, BLOCK_SIZES ! i) \<in> owned free live"
  by (auto simp: owned_def class_chunks_def)

lemma owned_live: "x \<in> live \<Longrightarrow> live_chunk x \<in> owned free live"
  by (auto simp: owned_def)

lemma owned_upd:
  assumes "i < 9"
  shows "owned (free(i := ps)) live = class_chunks i ps \<union> owned (free(i := [])) live"
  using assms by (auto simp: owned_def class_chunks_def split: if_splits)

lemma owned_pop:
  assumes "i < 9" and "free i = p # ps" and "block_index l = Some i"
  shows "owned (free(i := ps)) (insert (p, l) live) = owned free live"
proof -
  have "owned free live = owned (free(i := p # ps)) live"
    using assms(2) by (metis fun_upd_triv)
  with assms(1,3) show ?thesis
    by (auto simp: owned_insert owned_upd [of i free "p # ps"] owned_upd [of i free ps]
        live_chunk_Some class_chunks_def)
qed

lemma owned_push:
  assumes "block_index l = Some i" and "(p, l) \<in> live"
  shows "owned (free(i := p # free i)) (live - {(p, l)}) = owned free live"
proof -
  have "owned (free(i := p # free i)) (live - {(p, l)}) =
      owned ((free(i := p # free i))(i := free i)) (insert (p, l) (live - {(p, l)}))"
    by (rule owned_pop [symmetric]) (use assms(1) in \<open>simp_all add: block_index_less\<close>)
  also have "\<dots> = owned free live"
    using assms(2) by (simp add: insert_absorb)
  finally show ?thesis .
qed

lemma owned_delete:
  assumes "x \<in> live" and "inj_on fst live" and "\<forall>i < 9. fst x \<notin> set (free i)"
  shows "owned free (live - {x}) = owned free live - {live_chunk x}"
proof -
  have ne: "live_chunk x \<notin> owned free (live - {x})"
  proof
    assume "live_chunk x \<in> owned free (live - {x})"
    then consider i where "i < 9" "live_chunk x \<in> class_chunks i (free i)"
      | y where "y \<in> live - {x}" "live_chunk x = live_chunk y"
      by (auto simp: owned_def)
    then show False
    proof cases
      case 1
      then have "fst (live_chunk x) \<in> set (free i)"
        by (auto simp: class_chunks_def simp del: fst_live_chunk)
      with 1 assms(3) show False by simp
    next
      case 2
      then have "fst x = fst y" by (metis fst_live_chunk)
      with 2 assms(1,2) show False by (auto dest: inj_onD)
    qed
  qed
  have "owned free live = insert (live_chunk x) (owned free (live - {x}))"
    using assms(1) by (metis insert_Diff owned_insert)
  with ne show ?thesis by simp
qed

lemma unat_power_of_two:
  assumes "k < 64"
  shows " unat (2 ^ k :: u64) = 2 ^ k"
proof -
  have "(2::nat) ^ k < 2 ^ LENGTH(64)"
    using assms by (intro power_strict_increasing) simp_all
  then have "unat (of_nat (2 ^ k) :: u64) = 2 ^ k"
    by (rule unat_of_nat_small)
  then show ?thesis by simp
qed

lemma block_align:
  assumes "valid_layout l" and "block_index l = Some i" and "unat (BLOCK_SIZES ! i) dvd unat p"
  shows "unat (lalign l) dvd unat p"
proof -
  obtain k where k: "k < 64" "lalign l = 2 ^ k"
    using assms(1) by (auto simp: valid_layout_def)
  have i: "i < 9" and "lalign l \<le> BLOCK_SIZES ! i"
    using assms(2) by (auto simp: block_index_Some)
  then have "(2::nat) ^ k \<le> 2 ^ (i + 3)"
    using k BLOCK_SIZES_power(2) [OF i] unat_power_of_two [OF k(1)]
    by (simp add: word_le_nat_alt del: power_increasing_iff)
  then have "(2::nat) ^ k dvd 2 ^ (i + 3)"
    by (simp add: le_imp_power_dvd)
  with k i assms(3) show ?thesis
    by (metis BLOCK_SIZES_power(2) dvd_trans unat_power_of_two)
qed

lemma valid_block_layout:
  assumes "i < 9"
  shows "valid_layout \<lparr>lsize = BLOCK_SIZES ! i, lalign = BLOCK_SIZES ! i\<rparr>"
proof -
  have "0 < unat (BLOCK_SIZES ! i)" and "BLOCK_SIZES ! i = 2 ^ (i + 3)"
    using BLOCK_SIZES_power [OF assms] by simp_all
  then show ?thesis
    using assms by (auto simp: valid_layout_def word_less_nat_alt intro!: bexI [of _ "i + 3"])
qed

section \<open>Every operation keeps the invariant\<close>

lemma heap_contract_fit:
  assumes "heap_contract first_fit release ok out lo hi"
    and "ok h" and "valid_layout l" and "first_fit h l = (Some p, h')"
  shows "ok h'" and "out h' = insert (p, lsize l) (out h)" and "\<forall>c \<in> out h. apart (p, lsize l) c"
    and "lo \<le> unat p" and "unat p + unat (lsize l) \<le> hi" and "unat (lalign l) dvd unat p"
    and "p \<noteq> 0"
proof -
  note c = assms(1) [unfolded heap_contract_def]
  note facts = c [THEN conjunct1]
    c [THEN conjunct2, THEN conjunct1, rule_format, OF conjI [OF assms(2) conjI [OF assms(3,4)]]]
  from facts show "ok h'" and "out h' = insert (p, lsize l) (out h)" and "\<forall>c \<in> out h. apart (p, lsize l) c"
    and "lo \<le> unat p" and "unat p + unat (lsize l) \<le> hi" and "unat (lalign l) dvd unat p"
    by simp_all
  from facts show "p \<noteq> 0" by auto
qed

lemma heap_contract_full:
  assumes "heap_contract first_fit release ok out lo hi" and "ok h" and "first_fit h l = (None, h')"
  shows "ok h'" and "out h' = out h"
  using assms unfolding heap_contract_def by metis+

lemma heap_contract_release:
  assumes "heap_contract first_fit release ok out lo hi" and "ok h" and "(p, lsize l) \<in> out h"
  shows "ok (release h p l)" and "out (release h p l) = out h - {(p, lsize l)}"
  using assms unfolding heap_contract_def by metis+

lemma heap_invD:
  assumes "heap_inv ok out lo hi free live a"
  shows "length (list_heads a) = 9" and "ok (fallback a)"
    and "i < 9 \<Longrightarrow> chain (node_next a) (list_heads a ! i) (free i)"
    and "i < 9 \<Longrightarrow> distinct (free i)"
    and "i < 9 \<Longrightarrow> p \<in> set (free i) \<Longrightarrow> unat (BLOCK_SIZES ! i) dvd unat p"
    and "i < 9 \<Longrightarrow> j < 9 \<Longrightarrow> i \<noteq> j \<Longrightarrow> p \<in> set (free i) \<Longrightarrow> p \<notin> set (free j)"
    and "x \<in> live \<Longrightarrow> live_ok x" and "x \<in> live \<Longrightarrow> i < 9 \<Longrightarrow> fst x \<notin> set (free i)"
    and "inj_on fst live"
    and "out (fallback a) = owned free live" and "separated lo hi (owned free live)"
  using assms unfolding heap_inv_def by blast+

lemma heap_inv_disjoint:
  "heap_inv ok out lo hi free live a \<Longrightarrow> i < 9 \<Longrightarrow> j < 9 \<Longrightarrow> i \<noteq> j \<Longrightarrow> set (free i) \<inter> set (free j) = {}"
  unfolding heap_inv_def by blast

lemma alloc_pop_inv:
  assumes inv: "heap_inv ok out lo hi free live a" and l: "valid_layout l"
    and bi: "block_index l = Some i" and head: "list_heads a ! i = Some p"
  shows "heap_inv ok out lo hi (free(i := tl (free i))) (insert (p, l) live)
      (a\<lparr>list_heads := (list_heads a)[i := node_next a p], node_next := (node_next a)(p := None)\<rparr>)"
    and "(p, BLOCK_SIZES ! i) \<in> owned free live" and "\<forall>x \<in> live. fst x \<noteq> p"
proof -
  have i: "i < 9" using bi by (rule block_index_less)
  obtain ps where ps: "free i = p # ps" and ch: "chain (node_next a) (node_next a p) ps"
    using heap_invD(3) [OF inv i] head by (auto simp: chain_Some)
  have dist: "distinct (p # ps)"
    using heap_invD(4) [OF inv i] ps by simp
  have other: "p \<notin> set (free j)" if "j < 9" "j \<noteq> i" for j
    using heap_invD(6) [OF inv i that(1)] that(2) ps by auto
  show fresh: "\<forall>x \<in> live. fst x \<noteq> p"
    using heap_invD(8) [OF inv _ i] ps by auto
  show "(p, BLOCK_SIZES ! i) \<in> owned free live"
    using owned_free [OF i, of p free] ps by simp
  have own: "owned (free(i := ps)) (insert (p, l) live) = owned free live"
    using i ps bi by (rule owned_pop)
  have dvd: "unat (BLOCK_SIZES ! i) dvd unat p"
    using heap_invD(5) [OF inv i] ps by simp
  then have ok: "live_ok (p, l)"
    using l bi block_align [OF l bi] by (simp add: live_ok_def)
  have chains: "chain ((node_next a)(p := None)) ((list_heads a)[i := node_next a p] ! j) ((free(i := ps)) j)"
    if "j < 9" for j
    using that ch dist other [OF that] heap_invD(3) [OF inv that] heap_invD(1) [OF inv]
    by (auto simp: chain_upd nth_list_update)
  have "inj_on fst (insert (p, l) live)"
    using heap_invD(9) [OF inv] fresh by (auto simp: inj_on_def)
  moreover have live_ps: "fst x \<notin> set ps" if "x \<in> live" for x
    using heap_invD(8) [OF inv that i] ps by auto
  moreover have "\<forall>x \<in> insert (p, l) live. live_ok x \<and> (\<forall>j < 9. fst x \<notin> set ((free(i := ps)) j))"
    using ok dist other heap_invD(7,8) [OF inv] live_ps by auto
  moreover have "\<forall>j < 9. \<forall>k < 9. j \<noteq> k \<longrightarrow> set ((free(i := ps)) j) \<inter> set ((free(i := ps)) k) = {}"
    using heap_invD(6) [OF inv] ps i by (auto; metis list.set_intros(2))
  moreover have "\<forall>j < 9. distinct ((free(i := ps)) j) \<and> (\<forall>q \<in> set ((free(i := ps)) j). unat (BLOCK_SIZES ! j) dvd unat q)"
    using heap_invD(4,5) [OF inv] ps dist by auto
  ultimately show "heap_inv ok out lo hi (free(i := tl (free i))) (insert (p, l) live)
      (a\<lparr>list_heads := (list_heads a)[i := node_next a p], node_next := (node_next a)(p := None)\<rparr>)"
    using heap_invD(1,2,10,11) [OF inv] chains own ps by (simp add: heap_inv_def)
qed

lemma fallback_alloc_inv:
  assumes hc: "heap_contract first_fit release ok out lo hi"
    and inv: "heap_inv ok out lo hi free live a"
    and bl: "valid_layout bl" and l: "valid_layout l"
    and chunk: "\<And>p. live_chunk (p, l) = (p, lsize bl)"
    and al: "\<And>p. unat (lalign bl) dvd unat p \<Longrightarrow> live_ok (p, l)"
    and res: "fallback_alloc first_fit bl a = (p, a')"
  shows "p = 0 \<and> heap_inv ok out lo hi free live a' \<or>
         p \<noteq> 0 \<and> heap_inv ok out lo hi free (insert (p, l) live) a' \<and> (\<forall>x \<in> live. fst x \<noteq> p)"
proof (cases "first_fit (fallback a) bl")
  case (Pair r h)
  show ?thesis
  proof (cases r)
    case None
    with Pair res have "p = 0" and a': "a' = a\<lparr>fallback := h\<rparr>"
      by (auto simp: fallback_alloc_def)
    moreover have "ok h" and "out h = out (fallback a)"
      using heap_contract_full [OF hc heap_invD(2) [OF inv]] Pair None by simp_all
    ultimately show ?thesis
      using inv by (simp add: heap_inv_def)
  next
    case (Some q)
    with Pair res have p: "q = p" and a': "a' = a\<lparr>fallback := h\<rparr>"
      by (auto simp: fallback_alloc_def)
    have ff: "first_fit (fallback a) bl = (Some p, h)"
      using Pair Some p by simp
    note h = heap_contract_fit [OF hc heap_invD(2) [OF inv] bl ff, unfolded heap_invD(10) [OF inv]]
    have pos: "0 < unat (lsize bl)"
      using bl by (simp add: valid_layout_def word_less_nat_alt)
    have sep: "separated lo hi (owned free (insert (p, l) live))"
      using separated_insert [OF heap_invD(11) [OF inv] h(3)] pos h(4,5) by (simp add: owned_insert chunk)
    have new: "fst c \<noteq> p" if "c \<in> owned free live" for c
      using apart_fst [of "(p, lsize bl)" c] h(3) that pos separated_sizeD [OF heap_invD(11) [OF inv] that]
      by auto
    have fresh: "\<forall>x \<in> live. fst x \<noteq> p"
      using new owned_live by (metis fst_live_chunk)
    moreover have "\<forall>i < 9. p \<notin> set (free i)"
      using new owned_free by (metis fst_conv)
    moreover have "inj_on fst (insert (p, l) live)"
      using heap_invD(9) [OF inv] fresh by (auto simp: inj_on_def)
    moreover have "p \<noteq> 0"
      by (rule h(7))
    moreover have "live_ok (p, l)"
      using al h(6) by blast
    ultimately show ?thesis
      using inv sep h(1,2) a' by (simp add: heap_inv_def owned_insert chunk)
  qed
qed

lemma alloc_inv:
  assumes hc: "heap_contract first_fit release ok out lo hi"
    and inv: "heap_inv ok out lo hi free live a" and l: "valid_layout l"
  shows "\<exists>p a' free'. alloc first_fit l a = Inr (p, a') \<and>
    (p = 0 \<and> heap_inv ok out lo hi free' live a' \<or>
     p \<noteq> 0 \<and> heap_inv ok out lo hi free' (insert (p, l) live) a' \<and> (\<forall>x \<in> live. fst x \<noteq> p))"
proof (cases "block_index l")
  case None
  obtain p a' where res: "fallback_alloc first_fit l a = (p, a')"
    by fastforce
  have "live_chunk (q, l) = (q, lsize l)" for q
    using None by (simp add: live_chunk_None)
  moreover have "live_ok (q, l)" if "unat (lalign l) dvd unat q" for q
    using that None l by (simp add: live_ok_def)
  ultimately show ?thesis
    using fallback_alloc_inv [OF hc inv l l _ _ res] None res by (auto simp: alloc_def)
next
  case (Some i)
  then have i: "i < 9" by (rule block_index_less)
  show ?thesis
  proof (cases "list_heads a ! i")
    case head: (Some p)
    have "p \<noteq> 0"
    proof -
      have "0 < lo" using hc by (simp add: heap_contract_def)
      moreover have "lo \<le> unat p"
        using heap_invD(11) [OF inv] alloc_pop_inv(2) [OF inv l Some head] by (auto simp: separated_def)
      ultimately show ?thesis by auto
    qed
    with alloc_pop_inv(1,3) [OF inv l Some head] show ?thesis
      using Some head i heap_invD(1) [OF inv] by (auto simp: alloc_def index_ck_def)
  next
    case head: None
    let ?bl = "\<lparr>lsize = BLOCK_SIZES ! i, lalign = BLOCK_SIZES ! i\<rparr>"
    obtain p a' where res: "fallback_alloc first_fit ?bl a = (p, a')"
      by fastforce
    have "live_ok (q, l)" if "unat (lalign ?bl) dvd unat q" for q
      using that Some l block_align [OF l Some] by (simp add: live_ok_def)
    then show ?thesis
      using fallback_alloc_inv [OF hc inv valid_block_layout [OF i] l _ _ res] Some head res i
        heap_invD(1) [OF inv]
      by (auto simp: alloc_def index_ck_def BLOCK_SIZES_layout live_chunk_Some)
  qed
qed

lemma dealloc_push_inv:
  assumes inv: "heap_inv ok out lo hi free live a" and pl: "(p, l) \<in> live"
    and bi: "block_index l = Some i"
  shows "heap_inv ok out lo hi (free(i := p # free i)) (live - {(p, l)})
      (a\<lparr>node_next := (node_next a)(p := list_heads a ! i), list_heads := (list_heads a)[i := Some p]\<rparr>)"
proof -
  have i: "i < 9" using bi by (rule block_index_less)
  have nin: "p \<notin> set (free j)" if "j < 9" for j
    using heap_invD(8) [OF inv pl that] by simp
  have chains: "chain ((node_next a)(p := list_heads a ! i)) ((list_heads a)[i := Some p] ! j)
      ((free(i := p # free i)) j)" if "j < 9" for j
    using heap_invD(3) [OF inv that] heap_invD(1) [OF inv] nin [OF that] that
    by (cases "j = i") (simp_all add: chain_upd)
  have own: "owned (free(i := p # free i)) (live - {(p, l)}) = owned free live"
    by (rule owned_push [OF bi pl])
  have "unat (BLOCK_SIZES ! i) dvd unat p"
    using heap_invD(7) [OF inv pl] bi by (simp add: live_ok_def)
  then have "\<forall>j < 9. distinct ((free(i := p # free i)) j) \<and>
      (\<forall>q \<in> set ((free(i := p # free i)) j). unat (BLOCK_SIZES ! j) dvd unat q)"
    using heap_invD(4,5) [OF inv] nin by auto
  moreover have "\<forall>j < 9. \<forall>k < 9. j \<noteq> k \<longrightarrow>
      set ((free(i := p # free i)) j) \<inter> set ((free(i := p # free i)) k) = {}"
    using heap_inv_disjoint [OF inv] nin by (simp add: Int_commute)
  moreover have "\<forall>x \<in> live - {(p, l)}. live_ok x \<and> (\<forall>j < 9. fst x \<notin> set ((free(i := p # free i)) j))"
  proof
    fix x assume x: "x \<in> live - {(p, l)}"
    then have "fst x \<noteq> p"
      using inj_onD [OF heap_invD(9) [OF inv], of x "(p, l)"] pl by auto
    with x show "live_ok x \<and> (\<forall>j < 9. fst x \<notin> set ((free(i := p # free i)) j))"
      using heap_invD(7,8) [OF inv] by auto
  qed
  moreover have "inj_on fst (live - {(p, l)})"
    using heap_invD(9) [OF inv] by (rule inj_on_subset) auto
  ultimately show ?thesis
    using heap_invD(1,2,10,11) [OF inv] chains own by (simp add: heap_inv_def)
qed

lemma dealloc_release_inv:
  assumes hc: "heap_contract first_fit release ok out lo hi"
    and inv: "heap_inv ok out lo hi free live a" and pl: "(p, l) \<in> live"
    and bi: "block_index l = None"
  shows "heap_inv ok out lo hi free (live - {(p, l)}) (a\<lparr>fallback := release (fallback a) p l\<rparr>)"
proof -
  have chunk: "live_chunk (p, l) = (p, lsize l)"
    using bi by (simp add: live_chunk_None)
  have "(p, lsize l) \<in> out (fallback a)"
    using owned_live [OF pl, of free] by (simp add: heap_invD(10) [OF inv] chunk)
  note rel = heap_contract_release [OF hc heap_invD(2) [OF inv] this, unfolded heap_invD(10) [OF inv]]
  have own: "owned free (live - {(p, l)}) = owned free live - {(p, lsize l)}"
    using owned_delete [OF pl heap_invD(9) [OF inv], of free] heap_invD(8) [OF inv pl] by (simp add: chunk)
  have "separated lo hi (owned free (live - {(p, l)}))"
    using heap_invD(11) [OF inv] by (rule separated_subset) (auto simp: own)
  moreover have "inj_on fst (live - {(p, l)})"
    using heap_invD(9) [OF inv] by (rule inj_on_subset) auto
  ultimately show ?thesis
    using inv rel own by (simp add: heap_inv_def)
qed

lemma dealloc_inv:
  assumes hc: "heap_contract first_fit release ok out lo hi"
    and inv: "heap_inv ok out lo hi free live a" and pl: "(p, l) \<in> live"
  shows "\<exists>a' free'. dealloc release p l a = Inr a' \<and> heap_inv ok out lo hi free' (live - {(p, l)}) a'"
proof (cases "block_index l")
  case None
  have "lo \<le> unat p"
    using separated_lowD [OF heap_invD(11) [OF inv] owned_live [OF pl]] by simp
  moreover have "0 < lo"
    using hc unfolding heap_contract_def by (elim conjE)
  ultimately have "p \<noteq> 0" by auto
  with dealloc_release_inv [OF hc inv pl None] None show ?thesis
    by (auto simp: dealloc_def)
next
  case (Some i)
  then have i: "i < 9" by (rule block_index_less)
  have "8 \<le> BLOCK_SIZES ! i"
    using i by (cases rule: nine_cases; simp add: BLOCK_SIZES_def)
  with dealloc_push_inv [OF inv pl Some] Some i show ?thesis
    using heap_invD(1) [OF inv] by (auto simp: dealloc_def index_ck_def)
qed

text \<open>A client may write anywhere in a block it holds; the nodes of the free lists are elsewhere.\<close>

lemma client_write_inv:
  assumes inv: "heap_inv ok out lo hi free live a" and pl: "x \<in> live"
    and addr: "unat q \<in> extent (live_chunk x)"
  shows "heap_inv ok out lo hi free live (a\<lparr>node_next := (node_next a)(q := v)\<rparr>)"
proof -
  have "q \<notin> set (free i)" if i: "i < 9" for i
  proof
    assume q: "q \<in> set (free i)"
    then have mem: "(q, BLOCK_SIZES ! i) \<in> owned free live"
      using i by (intro owned_free)
    moreover have "unat q \<in> extent (q, BLOCK_SIZES ! i)"
      using BLOCK_SIZES_power(2) [OF i] by (simp add: extent_def)
    ultimately have "(q, BLOCK_SIZES ! i) = live_chunk x"
      using separated_overlap [OF heap_invD(11) [OF inv] mem owned_live [OF pl]] addr by blast
    then have "fst x = q" by (metis fst_conv fst_live_chunk)
    with q heap_invD(8) [OF inv pl i] show False by simp
  qed
  with inv show ?thesis
    by (simp add: heap_inv_def chain_upd)
qed

section \<open>Runs of the allocator\<close>

text \<open>
  A run interleaves allocations, deallocations of live blocks with the layout they were allocated
  with, and writes of clients to blocks they hold. \<open>live\<close> records the blocks that are out.
\<close>

inductive heap_step ::
  "('h \<Rightarrow> layout \<Rightarrow> u64 option \<times> 'h) \<Rightarrow> ('h \<Rightarrow> u64 \<Rightarrow> layout \<Rightarrow> 'h) \<Rightarrow>
   'h fixed_block_alloc \<times> (u64 \<times> layout) set \<Rightarrow> 'h fixed_block_alloc \<times> (u64 \<times> layout) set \<Rightarrow> bool"
  for first_fit release where
  allocated: "valid_layout l \<Longrightarrow> alloc first_fit l a = Inr (p, a') \<Longrightarrow> p \<noteq> 0 \<Longrightarrow>
     heap_step first_fit release (a, live) (a', insert (p, l) live)"
| exhausted: "valid_layout l \<Longrightarrow> alloc first_fit l a = Inr (0, a') \<Longrightarrow>
     heap_step first_fit release (a, live) (a', live)"
| freed: "(p, l) \<in> live \<Longrightarrow> dealloc release p l a = Inr a' \<Longrightarrow>
     heap_step first_fit release (a, live) (a', live - {(p, l)})"
| written: "x \<in> live \<Longrightarrow> unat q \<in> extent (live_chunk x) \<Longrightarrow>
     heap_step first_fit release (a, live) (a\<lparr>node_next := (node_next a)(q := v)\<rparr>, live)"

inductive heap_run ::
  "('h \<Rightarrow> layout \<Rightarrow> u64 option \<times> 'h) \<Rightarrow> ('h \<Rightarrow> u64 \<Rightarrow> layout \<Rightarrow> 'h) \<Rightarrow>
   'h fixed_block_alloc \<Rightarrow> 'h fixed_block_alloc \<times> (u64 \<times> layout) set \<Rightarrow> bool"
  for first_fit release a0 where
  start: "heap_run first_fit release a0 (a0, {})"
| step: "heap_run first_fit release a0 s \<Longrightarrow> heap_step first_fit release s t \<Longrightarrow>
     heap_run first_fit release a0 t"

lemma heap_step_inv:
  assumes "heap_step first_fit release s t" and hc: "heap_contract first_fit release ok out lo hi"
    and "\<exists>free. heap_inv ok out lo hi free (snd s) (fst s)"
  shows "\<exists>free. heap_inv ok out lo hi free (snd t) (fst t)"
  using assms(1,3)
proof (induction rule: heap_step.induct)
  case (allocated l a p a' live)
  then obtain free where "heap_inv ok out lo hi free live a" by auto
  with alloc_inv [OF hc this allocated.hyps(1)] allocated.hyps show ?case by auto
next
  case (exhausted l a a' live)
  then obtain free where "heap_inv ok out lo hi free live a" by auto
  with alloc_inv [OF hc this exhausted.hyps(1)] exhausted.hyps show ?case by auto
next
  case (freed p l live a a')
  then obtain free where "heap_inv ok out lo hi free live a" by auto
  with dealloc_inv [OF hc this freed.hyps(1)] freed.hyps show ?case by auto
next
  case (written x live q a v)
  then show ?case using client_write_inv by fastforce
qed

lemma heap_start_inv:
  assumes "ok h" and "out h = {}"
  shows "heap_inv ok out lo hi (\<lambda>_. []) {} (fba_new h m)"
  using assms by (auto simp: heap_inv_def fba_new_def owned_def class_chunks_def separated_def)

lemma heap_run_inv:
  assumes "heap_run first_fit release (fba_new h m) s"
    and hc: "heap_contract first_fit release ok out lo hi" and "ok h" and "out h = {}"
  shows "\<exists>free. heap_inv ok out lo hi free (snd s) (fst s)"
  using assms(1)
proof (induction rule: heap_run.induct)
  case start
  show ?case using heap_start_inv [of ok h out] assms(3,4) by fastforce
next
  case (step s t)
  then show ?case using heap_step_inv [OF _ hc] by blast
qed

lemma fba_init_new: "fba_init heap_init hs hz (fba_new h m) = fba_new (heap_init h hs hz) m"
  by (simp add: fba_init_def fba_new_def)

lemma block_size_of_ge: "lsize l \<le> block_size_of l"
  by (auto simp: block_size_of_def block_index_Some split: option.splits)

text \<open>
  A bump allocator over the kernel heap's region satisfies \<open>heap_contract\<close>: the contract can be met.
\<close>

definition bump_fit :: "nat \<times> chunk list \<Rightarrow> layout \<Rightarrow> u64 option \<times> (nat \<times> chunk list)" where
  "bump_fit h l =
     (let al = unat (lalign l); p = (fst h + (al - 1)) div al * al
      in if p + unat (lsize l) \<le> 0x444444540000
         then (Some (of_nat p), (p + unat (lsize l), (of_nat p, lsize l) # snd h))
         else (None, h))"

definition bump_release :: "nat \<times> chunk list \<Rightarrow> u64 \<Rightarrow> layout \<Rightarrow> nat \<times> chunk list" where
  "bump_release h p l = (fst h, filter (\<lambda>c. c \<noteq> (p, lsize l)) (snd h))"

definition bump_ok :: "nat \<times> chunk list \<Rightarrow> bool" where
  "bump_ok h \<longleftrightarrow> 0x444444440000 \<le> fst h \<and> (\<forall>c \<in> set (snd h). unat (fst c) + unat (snd c) \<le> fst h)"

lemma round_up_ge: "0 < (al :: nat) \<Longrightarrow> n \<le> (n + (al - 1)) div al * al"
proof -
  assume "0 < al"
  then have "n + (al - 1) < al + (n + (al - 1)) div al * al"
    by (rule dividend_less_div_times)
  with \<open>0 < al\<close> show ?thesis by linarith
qed

lemma bump_fit_Some:
  assumes ok: "bump_ok h" and l: "valid_layout l" and fit: "bump_fit h l = (Some p, h')"
  shows "bump_ok h' \<and> set (snd h') = insert (p, lsize l) (set (snd h)) \<and>
    (\<forall>c \<in> set (snd h). apart (p, lsize l) c) \<and>
    0x444444440000 \<le> unat p \<and> unat p + unat (lsize l) \<le> 0x444444540000 \<and>
    unat (lalign l) dvd unat p"
proof -
  let ?p = "(fst h + (unat (lalign l) - 1)) div unat (lalign l) * unat (lalign l)"
  have al: "0 < unat (lalign l)"
    using l unat_power_of_two by (auto simp: valid_layout_def)
  from fit have le: "?p + unat (lsize l) \<le> 0x444444540000" and p: "p = of_nat ?p"
    and h': "h' = (?p + unat (lsize l), (p, lsize l) # snd h)"
    by (auto simp: bump_fit_def Let_def split: if_splits)
  have up: "unat p = ?p"
    using le unat_of_nat_small [of ?p, where ?'a = 64] p by simp
  have ge: "fst h \<le> ?p"
    by (rule round_up_ge [OF al])
  have "apart (p, lsize l) c" if "c \<in> set (snd h)" for c
    using ok that ge by (auto simp: bump_ok_def apart_def extent_def up)
  moreover have "bump_ok h'"
    using ok ge by (auto simp: bump_ok_def h' up)
  ultimately show ?thesis
    using ok ge le by (simp add: h' up bump_ok_def)
qed

lemma bump_heap_contract:
  "heap_contract bump_fit bump_release bump_ok (\<lambda>h. set (snd h)) 0x444444440000 0x444444540000"
proof -
  have full: "\<forall>h l h'. bump_ok h \<and> bump_fit h l = (None, h') \<longrightarrow> bump_ok h' \<and> set (snd h') = set (snd h)"
    by (auto simp: bump_fit_def Let_def split: if_splits)
  have rel: "\<forall>h p l. bump_ok h \<and> (p, lsize l) \<in> set (snd h) \<longrightarrow>
      bump_ok (bump_release h p l) \<and> set (snd (bump_release h p l)) = set (snd h) - {(p, lsize l)}"
    by (auto simp: bump_release_def bump_ok_def)
  have fit: "\<forall>h l p h'. bump_ok h \<and> valid_layout l \<and> bump_fit h l = (Some p, h') \<longrightarrow>
      bump_ok h' \<and> set (snd h') = insert (p, lsize l) (set (snd h)) \<and>
      (\<forall>c \<in> set (snd h). apart (p, lsize l) c) \<and>
      0x444444440000 \<le> unat p \<and> unat p + unat (lsize l) \<le> 0x444444540000 \<and> unat (lalign l) dvd unat p"
    using bump_fit_Some by blast
  show ?thesis
    unfolding heap_contract_def by (intro conjI fit full rel) simp
qed

section \<open>Properties\<close>

text \<open>C2: Blocks handed out by the kernel heap never overlap. In every run of allocations, deallocations
  and client writes that starts from a freshly initialised allocator, any two live blocks occupy
  disjoint memory, and each lies inside the heap region, is at least as large as its layout asks and
  is aligned as its layout asks. The fallback heap is assumed to satisfy its documentation.\<close>

theorem live_blocks_disjoint:
  assumes "heap_contract first_fit release ok out lo hi"
    and "ok (heap_init h start sz)" and "out (heap_init h start sz) = {}"
    and "heap_run first_fit release (fba_init heap_init start sz (fba_new h m)) (a, live)"
    and "x \<in> live" and "y \<in> live" and "x \<noteq> y"
  shows "apart (live_chunk x) (live_chunk y) \<and> lsize (snd x) \<le> block_size_of (snd x) \<and>
    unat (lalign (snd x)) dvd unat (fst x) \<and>
    lo \<le> unat (fst x) \<and> unat (fst x) + unat (block_size_of (snd x)) \<le> hi"
proof -
  obtain free where inv: "heap_inv ok out lo hi free live a"
    using heap_run_inv [OF assms(4) [unfolded fba_init_new] assms(1-3)] by auto
  have "live_chunk x \<noteq> live_chunk y"
    using inj_onD [OF heap_invD(9) [OF inv], of x y] assms(5-7) by (metis fst_live_chunk)
  moreover note sep = heap_invD(11) [OF inv, unfolded separated_def]
  ultimately have "apart (live_chunk x) (live_chunk y)"
    using owned_live [OF assms(5), of free] owned_live [OF assms(6), of free] by blast
  moreover have "unat (lalign (snd x)) dvd unat (fst x)"
    using heap_invD(7) [OF inv assms(5)] by (simp add: live_ok_def)
  moreover have "lo \<le> unat (fst x) \<and> unat (fst x) + unat (block_size_of (snd x)) \<le> hi"
    using sep owned_live [OF assms(5), of free] by (force simp: live_chunk_def)
  ultimately show ?thesis
    by (simp add: block_size_of_ge)
qed

text \<open>The state after a kernel that starts with an empty heap allocates 24 bytes and then 8.\<close>

lemma bump_two_allocations:
  "heap_run bump_fit bump_release
     (fba_init (\<lambda>h start sz. (unat start, [])) 0x444444440000 0x100000 (fba_new (0, []) (\<lambda>_. None)))
     (\<lparr>list_heads = replicate 9 None, node_next = \<lambda>_. None,
       fallback = (0x444444440028, [(0x444444440020, 8), (0x444444440000, 32)])\<rparr>,
      {(0x444444440020, \<lparr>lsize = 8, lalign = 8\<rparr>), (0x444444440000, \<lparr>lsize = 24, lalign = 8\<rparr>)})"
proof -
  let ?a0 = "fba_init (\<lambda>h start sz. (unat start, [])) 0x444444440000 0x100000 (fba_new (0, []) (\<lambda>_. None))"
  let ?a1 = "\<lparr>list_heads = replicate 9 None, node_next = \<lambda>_. None,
      fallback = (0x444444440020, [(0x444444440000, 32)])\<rparr> :: (nat \<times> chunk list) fixed_block_alloc"
  let ?a2 = "\<lparr>list_heads = replicate 9 None, node_next = \<lambda>_. None,
      fallback = (0x444444440028, [(0x444444440020, 8), (0x444444440000, 32)])\<rparr> :: (nat \<times> chunk list) fixed_block_alloc"
  have v1: "valid_layout \<lparr>lsize = 24, lalign = 8\<rparr>" and v2: "valid_layout \<lparr>lsize = 8, lalign = 8\<rparr>"
    by (auto simp: valid_layout_def intro!: bexI [of _ 3])
  have bi: "block_index \<lparr>lsize = 24, lalign = 8\<rparr> = Some 2" "block_index \<lparr>lsize = 8, lalign = 8\<rparr> = Some 0"
    by (simp_all add: block_index_def BLOCK_SIZES_def)
  have nine: "replicate 9 (None :: u64 option) = [None, None, None, None, None, None, None, None, None]"
    by (simp add: numeral_eq_Suc)
  have s1: "alloc bump_fit \<lparr>lsize = 24, lalign = 8\<rparr> ?a0 = Inr (0x444444440000, ?a1)"
    by (simp add: alloc_def bi index_ck_def fba_init_def fba_new_def BLOCK_SIZES_def from_size_align_def
        is_power_of_two_def fallback_alloc_def bump_fit_def nine)
  have s2: "alloc bump_fit \<lparr>lsize = 8, lalign = 8\<rparr> ?a1 = Inr (0x444444440020, ?a2)"
    by (simp add: alloc_def bi index_ck_def BLOCK_SIZES_def from_size_align_def
        is_power_of_two_def fallback_alloc_def bump_fit_def nine)
  have "heap_run bump_fit bump_release ?a0 (?a1, {(0x444444440000, \<lparr>lsize = 24, lalign = 8\<rparr>)})"
    using heap_run.step [OF heap_run.start heap_step.allocated [OF v1 s1]] by simp
  from heap_run.step [OF this heap_step.allocated [OF v2 s2]] show ?thesis by simp
qed

theorem live_blocks_disjoint_witness:
  "apart (live_chunk (0x444444440020, \<lparr>lsize = 8, lalign = 8\<rparr>))
         (live_chunk (0x444444440000, \<lparr>lsize = 24, lalign = 8\<rparr>))"
  by (rule live_blocks_disjoint [OF bump_heap_contract _ _ bump_two_allocations, THEN conjunct1])
    (simp_all add: bump_ok_def)

text \<open>C19: The kernel heap never panics on a well-behaved client and never hands out a live block again.
  In every reachable state, an allocation with a valid layout returns; it returns either null or an
  address that no live block has; and giving back a live block returns too.\<close>

theorem heap_operations_return:
  assumes "heap_contract first_fit release ok out lo hi"
    and "ok (heap_init h start sz)" and "out (heap_init h start sz) = {}"
    and "heap_run first_fit release (fba_init heap_init start sz (fba_new h m)) (a, live)"
    and "valid_layout l"
  shows "(\<exists>p a'. alloc first_fit l a = Inr (p, a') \<and> (p = 0 \<or> (\<forall>x \<in> live. fst x \<noteq> p))) \<and>
    (\<forall>x \<in> live. \<exists>a'. dealloc release (fst x) (snd x) a = Inr a')"
proof -
  obtain free where inv: "heap_inv ok out lo hi free live a"
    using heap_run_inv [OF assms(4) [unfolded fba_init_new] assms(1-3)] by auto
  have "\<exists>a'. dealloc release (fst x) (snd x) a = Inr a'" if "x \<in> live" for x
    using dealloc_inv [OF assms(1) inv, of "fst x" "snd x"] that by auto
  with alloc_inv [OF assms(1) inv assms(5)] show ?thesis by blast
qed

theorem heap_operations_return_witness:
  "\<exists>a'. dealloc bump_release 0x444444440000 \<lparr>lsize = 24, lalign = 8\<rparr>
     \<lparr>list_heads = replicate 9 None, node_next = \<lambda>_. None,
       fallback = (0x444444440028, [(0x444444440020, 8), (0x444444440000, 32)])\<rparr> = Inr a'"
proof -
  have "valid_layout \<lparr>lsize = 8, lalign = 8\<rparr>"
    by (auto simp: valid_layout_def intro!: bexI [of _ 3])
  from heap_operations_return [OF bump_heap_contract _ _ bump_two_allocations this]
  show ?thesis by (simp add: bump_ok_def)
qed

text \<open>Freed blocks are reused last in, first out. A block given back with a layout of some block class
  is what the next allocation of any layout of the same class returns, and that allocation leaves
  the free lists and the fallback heap as they were before the block was given back.\<close>

theorem dealloc_then_alloc:
  assumes "length (list_heads a) = 9" and "block_index l = Some i" and "block_index k = Some i"
  shows "\<exists>a' a''. dealloc release p l a = Inr a' \<and> alloc first_fit k a' = Inr (p, a'') \<and>
    list_heads a'' = list_heads a \<and> fallback a'' = fallback a"
proof -
  have i: "i < 9" using assms(2) by (rule block_index_less)
  have "8 \<le> BLOCK_SIZES ! i"
    using i by (cases rule: nine_cases; simp add: BLOCK_SIZES_def)
  with i assms show ?thesis
    by (simp add: dealloc_def alloc_def index_ck_def)
qed

theorem dealloc_then_alloc_witness:
  "\<exists>a' a''. dealloc bump_release 0x444444440000 \<lparr>lsize = 24, lalign = 8\<rparr> (fba_new (0, []) (\<lambda>_. None)) = Inr a' \<and>
     alloc bump_fit \<lparr>lsize = 32, lalign = 4\<rparr> a' = Inr (0x444444440000, a'')"
proof -
  have "block_index \<lparr>lsize = 24, lalign = 8\<rparr> = Some 2" "block_index \<lparr>lsize = 32, lalign = 4\<rparr> = Some 2"
    by (simp_all add: block_index_def BLOCK_SIZES_def)
  from dealloc_then_alloc [where a = "fba_new (0, []) (\<lambda>_. None)" and release = bump_release
      and first_fit = bump_fit and p = "0x444444440000", OF _ this]
  show ?thesis by (auto simp: fba_new_def)
qed

end
