(* ===== verification/Heap_Init.thy ===== *)
theory Heap_Init
  imports Paging Fixed_Block
begin

text \<open>
  \<^verbatim>\<open>src/allocator.rs\<close>: mapping the kernel heap and handing it to the allocator. The allocator sits
  behind \<^verbatim>\<open>Locked\<close>, a spin mutex around it; \<open>init_heap\<close> takes and returns the locked value.
\<close>

definition HEAP_START :: usize where
  "HEAP_START = 0x444444440000"

definition HEAP_SIZE :: usize where
  "HEAP_SIZE = 0x100 * 0x1000"

text \<open>The loop of \<^verbatim>\<open>init_heap\<close>: one frame per page; the first error is returned.\<close>

fun map_heap_pages ::
  "('s \<Rightarrow> ('f option \<times> 's) rust) \<Rightarrow> ('f, 'm, 's) map_to_fn \<Rightarrow> page_flag set \<Rightarrow> u64 list \<Rightarrow> 'm \<Rightarrow> 's \<Rightarrow>
   ((map_to_error + unit) \<times> 'm \<times> 's) rust" where
  "map_heap_pages alloc_frame map_to flags [] m s = Inr (Inr (), m, s)"
| "map_heap_pages alloc_frame map_to flags (page # pages) m s =
     bindE (alloc_frame s) (\<lambda>(r, s1).
     (case r of
        None \<Rightarrow> Inr (Inl FrameAllocationFailed, m, s1)
      | Some frame \<Rightarrow>
          bindE (map_to page frame flags m s1) (\<lambda>(e, m', s2).
          (case e of
             Inl err \<Rightarrow> Inr (Inl err, m', s2)
           | Inr _ \<Rightarrow> map_heap_pages alloc_frame map_to flags pages m' s2))))"

definition heap_pages :: "(u64 \<Rightarrow> u64 \<Rightarrow> u64 list) \<Rightarrow> u64 list" where
  "heap_pages page_range =
     (let heap_start_addr = HEAP_START; heap_end_addr = heap_start_addr + HEAP_SIZE - 1
      in page_range heap_start_addr heap_end_addr)"

definition init_heap ::
  "(u64 \<Rightarrow> u64 \<Rightarrow> u64 list) \<Rightarrow> ('s \<Rightarrow> ('f option \<times> 's) rust) \<Rightarrow> ('f, 'm, 's) map_to_fn \<Rightarrow>
   ('h \<Rightarrow> u64 \<Rightarrow> usize \<Rightarrow> 'h) \<Rightarrow> 'm \<Rightarrow> 's \<Rightarrow> 'h fixed_block_alloc \<Rightarrow>
   ((map_to_error + unit) \<times> 'm \<times> 's \<times> 'h fixed_block_alloc) rust" where
  "init_heap page_range alloc_frame map_to heap_init m s allocator =
     bindE (map_heap_pages alloc_frame map_to {PRESENT, WRITABLE} (heap_pages page_range) m s) (\<lambda>(e, m', s').
     (case e of
        Inl err \<Rightarrow> Inr (Inl err, m', s', allocator)
      | Inr _ \<Rightarrow> Inr (Inr (), m', s', fba_init heap_init HEAP_START HEAP_SIZE allocator)))"

section \<open>The heap is mapped with distinct frames\<close>

lemma heap_pages_eq:
  assumes "page_range_doc page_range"
  shows "heap_pages page_range = map (\<lambda>i. of_nat (4096 * i)) [0x444444440 ..< 0x444444540]"
proof -
  have "unat HEAP_START div 4096 = 0x444444440"
    and "unat (HEAP_START + HEAP_SIZE - 1) div 4096 + 1 = 0x444444540"
    by (simp_all add: HEAP_START_def HEAP_SIZE_def)
  then show ?thesis
    using assms [unfolded page_range_doc_def, rule_format, of HEAP_START "HEAP_START + HEAP_SIZE - 1"]
    by (simp only: heap_pages_def Let_def inclusive_pages_def)
qed

lemma unat_page: "i < 0x444444540 \<Longrightarrow> unat (of_nat (4096 * i) :: u64) = 4096 * i"
  by (rule unat_of_nat_small) simp

lemma length_heap_pages: "page_range_doc page_range \<Longrightarrow> length (heap_pages page_range) = 256"
  by (simp add: heap_pages_eq del: upt_rec_numeral of_nat_mult)

lemma distinct_heap_pages:
  assumes "page_range_doc page_range"
  shows "distinct (heap_pages page_range)"
proof -
  have "inj_on (\<lambda>i. of_nat (4096 * i) :: u64) {0x444444440 ..< 0x444444540}"
  proof (rule inj_onI)
    fix i j :: nat
    assume i: "i \<in> {0x444444440 ..< 0x444444540}" and j: "j \<in> {0x444444440 ..< 0x444444540}"
      and eq: "of_nat (4096 * i) = (of_nat (4096 * j) :: u64)"
    have "i < 0x444444540" and "j < 0x444444540"
      using i j by (simp_all only: atLeastLessThan_iff)
    then have "4096 * i = 4096 * j"
      using unat_page [of i] unat_page [of j] eq by metis
    then show "i = j" by linarith
  qed
  then show ?thesis
    unfolding heap_pages_eq [OF assms] distinct_map by (simp only: distinct_upt set_upt simp_thms)
qed

lemma heap_pages_cover:
  assumes "page_range_doc page_range" and "0x444444440000 \<le> (a :: u64)" and "a < 0x444444540000"
  shows "\<exists>p \<in> set (heap_pages page_range). unat p \<le> unat a \<and> unat a < unat p + 4096"
proof -
  let ?i = "unat a div 4096"
  have "0x444444440000 \<le> unat a" and "unat a < 0x444444540000"
    using assms(2,3) by (simp_all add: word_le_nat_alt word_less_nat_alt)
  then have lo: "0x444444440 \<le> ?i" and i: "?i < 0x444444540"
    by linarith+
  have "of_nat (4096 * ?i) \<in> set (heap_pages page_range)"
    unfolding heap_pages_eq [OF assms(1)] set_map set_upt
    by (rule imageI) (use lo i in simp)
  moreover have "4096 * ?i \<le> unat a" and "unat a < 4096 * ?i + 4096"
    by linarith+
  ultimately show ?thesis
    using unat_page [OF i] by metis
qed

context frame_allocator
begin

lemma map_heap_pages_frames:
  assumes mc: "map_to_contract map_to lookup free inv"
    and "inv s" and "map_heap_pages alloc map_to fl pages m s = Inr (Inr (), m', s')"
  shows "\<exists>fs. length fs = length pages \<and> subseq fs (free s) \<and> inv s' \<and> distinct pages \<and>
    (\<forall>p \<in> set pages. lookup m p = None) \<and>
    lookup m' = lookup m ++ map_of (zip pages (map (\<lambda>f. (f, fl)) fs))"
  using assms(2,3)
proof (induction pages arbitrary: m s)
  case Nil
  then show ?case by simp
next
  case (Cons p ps)
  from Cons.prems(2) obtain r s1 where a: "alloc s = Inr (r, s1)"
    by (auto elim!: bindE_InrE)
  with Cons.prems(2) obtain f where r: "r = Some f"
    by (cases r) auto
  from a r Cons.prems(2) obtain m2 s2 where mt: "map_to p f fl m s1 = Inr (Inr (), m2, s2)"
    and rest: "map_heap_pages alloc map_to fl ps m2 s2 = Inr (Inr (), m', s')"
    by (auto elim!: bindE_InrE split: sum.splits)
  have s1: "inv s1" "free s = f # free s1"
    using alloc_some_iff [OF Cons.prems(1) a] r by auto
  note c = map_to_contractD [OF mc s1(1) mt]
  from Cons.IH [OF c(3) rest] obtain fs where fs: "length fs = length ps" "subseq fs (free s2)" "inv s'"
    "distinct ps" "\<forall>q \<in> set ps. lookup m2 q = None"
    "lookup m' = lookup m2 ++ map_of (zip ps (map (\<lambda>f. (f, fl)) fs))"
    by blast
  obtain k where "free s2 = drop k (free s1)" using c(4) by blast
  with fs(2) have "subseq fs (free s1)"
    using subseq_drop subseq_order.order_trans by metis
  then have sub: "subseq (f # fs) (free s)"
    by (simp add: s1(2))
  have p: "p \<notin> set ps"
    using fs(5) c(2) by auto
  have none: "\<forall>q \<in> set (p # ps). lookup m q = None"
    using fs(5) c(1,2) p by (metis fun_upd_apply set_ConsD)
  have lk: "lookup m' = lookup m ++ map_of (zip (p # ps) (map (\<lambda>f. (f, fl)) (f # fs)))"
  proof -
    have "p \<notin> dom (map_of (zip ps (map (\<lambda>f. (f, fl)) fs)))"
      using p fs(1) by simp
    then show ?thesis
      by (simp add: fs(6) c(2) map_add_upd_left)
  qed
  show ?case
    by (rule exI [of _ "f # fs"]) (intro conjI sub none lk fs(3); simp add: fs(1,4) p)
qed

lemma map_heap_pages_exhausted:
  assumes "inv s" and "free s = []" and "pages \<noteq> []"
  shows "\<exists>s'. map_heap_pages alloc map_to fl pages m s = Inr (Inl FrameAllocationFailed, m, s')"
  using assms alloc_Nil [OF assms(1,2)] by (cases pages) auto

end

section \<open>Properties\<close>

text \<open>C20: When \<^verbatim>\<open>init_heap\<close> succeeds, the kernel heap is usable memory: every address from
  \<^verbatim>\<open>HEAP_START\<close> up to its end lies in a page that is mapped present and writable, no two pages of the heap
  share a frame, and the heap handed to the allocator is exactly that region.\<close>

theorem init_heap_maps_heap:
  assumes "page_range_doc page_range"
    and "map_to_contract map_to lookup (lfa_free frame_of) (lfa_inv frame_of)"
    and "lfa_inv frame_of s" and "distinct (lfa_free frame_of s)"
    and "init_heap page_range (lfa_allocate_frame oc frame_of) map_to heap_init m s allocator =
           Inr (Inr (), m', s', allocator')"
  shows "(\<forall>a :: u64. 0x444444440000 \<le> a \<and> a < 0x444444540000 \<longrightarrow>
      (\<exists>p f. unat p \<le> unat a \<and> unat a < unat p + 4096 \<and> lookup m' p = Some (f, {PRESENT, WRITABLE}))) \<and>
    inj_on (\<lambda>p. fst (the (lookup m' p))) (set (heap_pages page_range)) \<and>
    allocator' = fba_init heap_init 0x444444440000 0x100000 allocator"
proof -
  let ?pages = "heap_pages page_range" and ?fl = "{PRESENT, WRITABLE}"
  from assms(5) have run: "map_heap_pages (lfa_allocate_frame oc frame_of) map_to ?fl ?pages m s = Inr (Inr (), m', s')"
    and al: "allocator' = fba_init heap_init HEAP_START HEAP_SIZE allocator"
    by (auto simp: init_heap_def elim!: bindE_InrE split: sum.splits)
  obtain fs where len: "length fs = length ?pages" and sub: "subseq fs (lfa_free frame_of s)"
    and dist: "distinct ?pages"
    and lk: "lookup m' = lookup m ++ map_of (zip ?pages (map (\<lambda>f. (f, ?fl)) fs))"
    using linear.map_heap_pages_frames [OF assms(2,3) run] by blast
  have "distinct fs"
    using sub assms(4) by (rule subseq_distinctD)
  have at: "lookup m' (?pages ! i) = Some (fs ! i, ?fl)" if "i < length ?pages" for i
    unfolding lk using dist len that by (rule zip_mapped_at)
  have inj: "inj_on (\<lambda>p. fst (the (lookup m' p))) (set ?pages)"
  proof (rule inj_onI)
    fix p q assume "p \<in> set ?pages" "q \<in> set ?pages" and eq: "fst (the (lookup m' p)) = fst (the (lookup m' q))"
    then obtain i j where "i < length ?pages" "p = ?pages ! i" "j < length ?pages" "q = ?pages ! j"
      by (metis in_set_conv_nth)
    with eq len \<open>distinct fs\<close> show "p = q"
      by (simp add: at nth_eq_iff_index_eq)
  qed
  have "\<exists>p f. unat p \<le> unat a \<and> unat a < unat p + 4096 \<and> lookup m' p = Some (f, ?fl)"
    if "0x444444440000 \<le> a" "a < 0x444444540000" for a :: u64
    using heap_pages_cover [OF assms(1) that] at by (metis in_set_conv_nth)
  with inj al show ?thesis
    by (simp add: HEAP_START_def HEAP_SIZE_def)
qed

text \<open>A mapper that stores mappings in a table and needs no frames of its own.\<close>

definition table_map_to :: "(u64, u64 \<rightharpoonup> u64 \<times> page_flag set, 's) map_to_fn" where
  "table_map_to page f fl m s =
     (if m page = None then Inr (Inr (), m(page \<mapsto> (f, fl)), s) else Inr (Inl PageAlreadyMapped, m, s))"

lemma table_map_to_new: "m page = None \<Longrightarrow> table_map_to page f fl m s = Inr (Inr (), m(page \<mapsto> (f, fl)), s)"
  by (simp add: table_map_to_def)

lemma table_map_to_contract: "map_to_contract table_map_to (\<lambda>m. m) free good"
  unfolding map_to_contract_def table_map_to_def
  by (auto split: if_splits intro: exI [of _ 0])

lemma table_map_heap_pages:
  assumes "lfa_inv frame_of s" and "distinct pages" and "\<forall>p \<in> set pages. m p = None"
    and "length pages \<le> length (lfa_free frame_of s)"
  shows "\<exists>m' s'. map_heap_pages (lfa_allocate_frame oc frame_of) table_map_to fl pages m s = Inr (Inr (), m', s') \<and>
    lfa_free frame_of s' = drop (length pages) (lfa_free frame_of s)"
  using assms
proof (induction pages arbitrary: m s)
  case Nil
  then show ?case by simp
next
  case (Cons p ps)
  then obtain f fs where cons: "lfa_free frame_of s = f # fs"
    by (cases "lfa_free frame_of s") auto
  obtain s1 where s1: "lfa_allocate_frame oc frame_of s = Inr (Some f, s1)" "lfa_inv frame_of s1"
    "lfa_free frame_of s1 = fs"
    using linear.alloc_Cons [OF Cons.prems(1) cons, of oc] by auto
  have "\<exists>m' s'. map_heap_pages (lfa_allocate_frame oc frame_of) table_map_to fl ps (m(p \<mapsto> (f, fl))) s1 = Inr (Inr (), m', s') \<and>
      lfa_free frame_of s' = drop (length ps) (lfa_free frame_of s1)"
    by (rule Cons.IH) (use s1 cons Cons.prems in auto)
  with s1(1,3) cons Cons.prems(3) show ?case
    by (simp add: table_map_to_new)
qed

theorem init_heap_maps_heap_witness:
  "\<exists>m' p f. (p :: u64) \<le> 0x444444440123 \<and> m' p = Some (f :: u64, {PRESENT, WRITABLE}) \<and>
     (\<exists>s' al'. init_heap inclusive_pages
       (lfa_allocate_frame True id) table_map_to (\<lambda>h _ _. h) Map.empty
       (lfa_init [\<lparr>start_addr = 0x1000, end_addr = 0x200000, is_usable = True\<rparr>])
       (fba_new () (\<lambda>_. None)) = Inr (Inr (), m', s', al'))"
proof -
  let ?pr = "inclusive_pages"
  let ?mm = "[\<lparr>start_addr = 0x1000, end_addr = 0x200000, is_usable = True\<rparr>]"
  have pr: "page_range_doc ?pr"
    by (simp add: page_range_doc_def)
  have len: "length (frame_addresses ?mm) = 511"
    by (simp add: frame_addresses_def range_step_def del: upt_rec_numeral)
  have inv: "lfa_inv id (lfa_init ?mm)"
    by (simp add: lfa_inv_def lfa_init_def len)
  have dist: "distinct (lfa_free id (lfa_init ?mm))"
    using distinct_usable_frames [of ?mm id] by (simp add: lfa_init_free)
  obtain m' s' where run: "map_heap_pages (lfa_allocate_frame True id) table_map_to {PRESENT, WRITABLE}
      (heap_pages ?pr) Map.empty (lfa_init ?mm) = Inr (Inr (), m', s')"
    using table_map_heap_pages [OF inv, of "heap_pages ?pr" Map.empty True "{PRESENT, WRITABLE}"]
    by (auto simp: length_heap_pages [OF pr] distinct_heap_pages [OF pr] lfa_init_free usable_frames_def len)
  have ih: "init_heap ?pr (lfa_allocate_frame True id) table_map_to (\<lambda>h _ _. h) Map.empty (lfa_init ?mm)
      (fba_new () (\<lambda>_. None)) = Inr (Inr (), m', s', fba_init (\<lambda>h _ _. h) HEAP_START HEAP_SIZE (fba_new () (\<lambda>_. None)))"
    by (simp add: init_heap_def run)
  have "\<exists>p f. unat p \<le> unat (0x444444440123 :: u64) \<and> unat (0x444444440123 :: u64) < unat p + 4096 \<and>
      m' p = Some (f, {PRESENT, WRITABLE})"
    by (rule init_heap_maps_heap [OF pr table_map_to_contract inv dist ih, THEN conjunct1, rule_format]) simp
  then obtain p f where "p \<le> (0x444444440123 :: u64)" "m' p = Some (f, {PRESENT, WRITABLE})"
    unfolding word_le_nat_alt by blast
  with ih show ?thesis by blast
qed

text \<open>When the frame allocator has no frame left, \<^verbatim>\<open>init_heap\<close> returns the error
  \<^verbatim>\<open>FrameAllocationFailed\<close> and neither the page table nor the heap allocator has changed.\<close>

theorem init_heap_without_frames:
  assumes "page_range_doc page_range" and "lfa_inv frame_of s" and "lfa_free frame_of s = []"
  shows "\<exists>s'. init_heap page_range (lfa_allocate_frame oc frame_of) map_to heap_init m s allocator =
    Inr (Inl FrameAllocationFailed, m, s', allocator)"
proof -
  have "heap_pages page_range \<noteq> []"
    using length_heap_pages [OF assms(1)] by auto
  from linear.map_heap_pages_exhausted [OF assms(2,3) this, of oc map_to "{PRESENT, WRITABLE}" m]
  show ?thesis by (auto simp: init_heap_def)
qed

theorem init_heap_without_frames_witness:
  "\<exists>s'. init_heap inclusive_pages
       (lfa_allocate_frame True id) table_map_to (\<lambda>h _ _. h) Map.empty (lfa_init [])
       (fba_new () (\<lambda>_. None)) = Inr (Inl FrameAllocationFailed, Map.empty, s', fba_new () (\<lambda>_. None))"
  by (rule init_heap_without_frames)
    (simp_all add: page_range_doc_def lfa_inv_def lfa_free_def lfa_init_def frame_addresses_def usable_frames_def)

end
