(* ===== verification/Process.thy ===== *)
theory Process
  imports Gdt Heap_Init
begin

text \<open>
  \<^verbatim>\<open>src/process.rs\<close> without \<^verbatim>\<open>spawn_from_file\<close>: the process record, its page table and stack, and the
  context switch. Each \<^verbatim>\<open>asm!\<close> block is an instruction list of \<open>Machine\<close>; an \<^verbatim>\<open>in("rcx")\<close> operand is a
  \<open>MOVI\<close> in front of the block. \<^verbatim>\<open>deactivate\<close> and \<^verbatim>\<open>activate\<close> run on different stacks at different
  times, so they take the processor state as an argument.
\<close>

definition USERSPACE_STACK :: u64 where
  "USERSPACE_STACK = 0x810000"

definition USERSPACE_STACK_BASE :: u64 where
  "USERSPACE_STACK_BASE = 0x800000"

record ProcessState =
  ps_rbx :: u64
  ps_rbp :: u64
  ps_r12 :: u64
  ps_r13 :: u64
  ps_r14 :: u64
  ps_r15 :: u64
  ps_rsp :: u64

text \<open>The level 4 table itself is in the table memory; a process names it by its physical address.\<close>

record 'f Process =
  process_state :: "ProcessState option"
  page_table_addr :: u64
  entry_offset :: u64
  regions :: "'f list"

section \<open>Context switch\<close>

definition deactivate :: "cpu \<Rightarrow> 'f Process \<Rightarrow> bool \<times> 'f Process" where
  "deactivate c p =
     (let state = \<lparr>ps_rbx = regs c RBX, ps_rbp = regs c RBP, ps_r12 = regs c R12, ps_r13 = regs c R13,
                   ps_r14 = regs c R14, ps_r15 = regs c R15, ps_rsp = regs c RSP\<rparr>
      in (False, p\<lparr>process_state := Some state\<rparr>))"

definition resume_code :: "ProcessState \<Rightarrow> 'x instr list" where
  "resume_code state =
     [MOVI RCX (ps_rbx state), MOV RBX RCX,
      MOVI RCX (ps_rbp state), MOV RBP RCX,
      MOVI RCX (ps_r12 state), MOV R12 RCX,
      MOVI RCX (ps_r13 state), MOV R13 RCX,
      MOVI RCX (ps_r14 state), MOV R14 RCX,
      MOVI RCX (ps_r15 state), MOV R15 RCX,
      MOVI RCX (ps_rsp state), MOV RSP RCX,
      MOVI RAX 1, ADDI RSP 0xc8, RET]"

text \<open>
  \<^verbatim>\<open>in("dx")\<close> and \<^verbatim>\<open>in("ax")\<close> set the low 16 bits of their registers only; the block pushes all 64.
\<close>

definition with_low16 :: "u64 \<Rightarrow> u16 \<Rightarrow> u64" where
  "with_low16 r v = (r AND NOT 0xFFFF) OR ucast v"

definition usermode_code :: "'x instr list" where
  "usermode_code = [PUSH RAX, PUSH RSI, PUSHI 0x200, PUSH RDX, PUSH RDI, IRETQ]"

definition switch_to_usermode :: "('x \<Rightarrow> cpu \<Rightarrow> cpu) \<Rightarrow> u16 \<times> u16 \<Rightarrow> 'f Process \<Rightarrow> cpu \<Rightarrow> cpu" where
  "switch_to_usermode call segs p c =
     (let (cs_index, ds_index) = segs;
          c = set_reg RDI (entry_offset p) c;
          c = set_reg RSI USERSPACE_STACK c;
          c = set_reg RDX (with_low16 (regs c RDX) cs_index) c;
          c = set_reg RAX (with_low16 (regs c RAX) ds_index) c
      in exec call usermode_code c)"

text \<open>\<open>containing_address\<close> is \<^verbatim>\<open>PhysFrame::containing_address\<close>.\<close>

definition load_page_table :: "(u64 \<Rightarrow> u64) \<Rightarrow> u64 \<Rightarrow> cpu \<Rightarrow> cpu" where
  "load_page_table containing_address addr c = c\<lparr>cr3 := (containing_address addr, snd (cr3 c))\<rparr>"

definition activate ::
  "('x \<Rightarrow> cpu \<Rightarrow> cpu) \<Rightarrow> (u64 \<Rightarrow> u64) \<Rightarrow> u16 \<times> u16 \<Rightarrow> 'f Process \<Rightarrow> cpu \<Rightarrow> cpu" where
  "activate call containing_address segs p c =
     (let c = load_page_table containing_address (page_table_addr p) c;
          c = c\<lparr>rflags := rflags c OR IF_bit\<rparr>
      in case process_state p of
           Some state \<Rightarrow> exec call (resume_code state) c
         | None \<Rightarrow> switch_to_usermode call segs p c)"

text \<open>
  A call of \<^verbatim>\<open>deactivate\<close>: the return address goes on the stack and the routine's frame takes the
  0xc8 bytes below it, the offset that \<^verbatim>\<open>activate\<close> undoes.
\<close>

definition enter_deactivate :: "u64 \<Rightarrow> cpu \<Rightarrow> cpu" where
  "enter_deactivate ret c = (let c = push ret c in set_reg RSP (regs c RSP - 0xc8) c)"

definition callee_saved :: "reg set" where
  "callee_saved = {RBX, RBP, RSP, R12, R13, R14, R15}"

lemma ucast_with_low16 [simp]: "(ucast (with_low16 r v) :: u16) = v"
proof (rule bit_word_eqI)
  have ones: "(0xFFFF :: u64) = mask 16" by (simp add: mask_eq_exp_minus_1)
  fix n :: nat assume "n < LENGTH(16)"
  then show "bit (ucast (with_low16 r v) :: u16) n = bit v n"
    unfolding with_low16_def ones by (simp add: bit_simps)
qed

text \<open>C12: Resuming a process: whatever the processor did in between, activating a process that was
  deactivated in a call from a routine with stack pointer r returns to the address found in that
  call's return slot with the stack pointer r, all callee-saved registers as they were at the call,
  the result register holding 1 (so that the call of \<^verbatim>\<open>deactivate\<close> appears to return true), and the
  process's page table loaded. The return slot is where the call had put its return address.\<close>

theorem activate_resumes_deactivate:
  fixes c0 c' :: cpu
  shows "let p' = snd (deactivate (enter_deactivate ret c0) p); c = activate call containing_address segs p' c'
    in restrict_map (Some o regs c) callee_saved = restrict_map (Some o regs c0) callee_saved \<and> regs c RAX = 1 \<and>
    fst (cr3 c) = containing_address (page_table_addr p) \<and> mem c = mem c' \<and>
    rip c = load64 (mem c') (regs c0 RSP - 8) \<and>
    load64 (mem (enter_deactivate ret c0)) (regs c0 RSP - 8) = ret"
  by (simp add: activate_def deactivate_def enter_deactivate_def resume_code_def
      load_page_table_def callee_saved_def machine_simps restrict_map_def fun_eq_iff)

text \<open>A process that never ran is entered in ring 3: execution starts at its entry point with the
  user code and data selectors, an empty user stack and interrupts enabled.\<close>

theorem activate_enters_usermode:
  fixes c :: cpu
  assumes "process_state p = None"
  shows "let c' = activate call containing_address (cs_index, ds_index) p c
    in rip c' = entry_offset p \<and> regs c' RSP = 0x810000 \<and> seg_cs c' = cs_index \<and> seg_ss c' = ds_index \<and>
    rflags c' = IF_bit \<and> fst (cr3 c') = containing_address (page_table_addr p)"
  using assms
  by (simp add: activate_def switch_to_usermode_def usermode_code_def load_page_table_def machine_simps
      USERSPACE_STACK_def IF_bit_def)

theorem activate_enters_usermode_witness:
  "let p = \<lparr>process_state = None, page_table_addr = 0x5000, entry_offset = 0x400000, regions = [] :: u64 list\<rparr>;
       c = \<lparr>regs = (\<lambda>_. 0xAAAABBBBCCCCDDDD)(RSP := 0x7000), rip = 0x1234, rflags = 2, seg_cs = 8, seg_ss = 16,
            cr3 = (0x1000, 0), msr = (\<lambda>_. 0), mem = (\<lambda>_. 0)\<rparr>;
       c' = activate (\<lambda>(_ :: unit) c. c) (\<lambda>a. a) (0x33, 0x2B) p c
   in rip c' = 0x400000 \<and> regs c' RSP = 0x810000 \<and> seg_cs c' = 0x33 \<and> seg_ss c' = 0x2B"
proof -
  let ?p = "\<lparr>process_state = None, page_table_addr = 0x5000, entry_offset = 0x400000, regions = [] :: u64 list\<rparr>"
  have "process_state ?p = None" by simp
  from activate_enters_usermode [OF this, where call = "\<lambda>(_ :: unit) c. c"] show ?thesis
    by (simp add: Let_def)
qed



section \<open>The page table of a new process\<close>

text \<open>
  Page tables are read and written through the mapping of physical memory: \<open>tables v i\<close> is entry \<open>i\<close> of the
  table at the virtual address \<open>v\<close>. Entries \<open>'e\<close> are the crate's \<^verbatim>\<open>PageTableEntry\<close>: \<open>set_addr a fl\<close> is an
  entry after \<^verbatim>\<open>set_addr(a, fl)\<close>, \<open>entry_addr\<close> is \<^verbatim>\<open>addr()\<close> and \<open>unused\<close> the entry of a zeroed table.
\<close>

type_synonym 'e page_table = "nat \<Rightarrow> 'e"

type_synonym 'e tables = "u64 \<Rightarrow> 'e page_table"

definition copy_entries :: "'e page_table \<Rightarrow> 'e page_table \<Rightarrow> 'e page_table" where
  "copy_entries src dst = fold (\<lambda>i t. t(i := src i)) [1 ..< 512] dst"

definition new_page_table ::
  "bool \<Rightarrow> (u64 \<Rightarrow> page_flag set \<Rightarrow> 'e) \<Rightarrow> ('e \<Rightarrow> u64) \<Rightarrow> 'e \<Rightarrow> ('s \<Rightarrow> ('f option \<times> 's) rust) \<Rightarrow> ('f \<Rightarrow> u64) \<Rightarrow>
   'e page_table \<Rightarrow> offset_page_table \<Rightarrow> 'e tables \<Rightarrow> 's \<Rightarrow> ('e page_table option \<times> 'e tables \<times> 's) rust" where
  "new_page_table oc set_addr entry_addr unused allocate_frame start_address current_page_table mapper tables s =
     bindE (allocate_frame s) (\<lambda>(r, s).
     case r of None \<Rightarrow> Inr (None, tables, s) | Some frame \<Rightarrow>
     let page_table = (\<lambda>_. unused)(0 := set_addr (start_address frame) {PRESENT, WRITABLE, USER_ACCESSIBLE}) in
     bindE (add_ck oc (entry_addr (page_table 0)) (phys_offset mapper)) (\<lambda>page_table_0.
     bindE (add_ck oc (entry_addr (current_page_table 0)) (phys_offset mapper)) (\<lambda>current_table_0.
     let page_table = copy_entries current_page_table page_table;
         tables = tables(page_table_0 := \<lambda>_. unused);
         tables = tables(page_table_0 := copy_entries (tables current_table_0) (tables page_table_0)) in
     bindE (allocate_frame s) (\<lambda>(r, s).
     case r of None \<Rightarrow> Inr (None, tables, s) | Some frame \<Rightarrow>
     let tables = tables(page_table_0 := (tables page_table_0)(0 := set_addr (start_address frame) {PRESENT, WRITABLE})) in
     bindE (add_ck oc (entry_addr (tables page_table_0 0)) (phys_offset mapper)) (\<lambda>page_table_0_0.
     bindE (add_ck oc (entry_addr (tables current_table_0 0)) (phys_offset mapper)) (\<lambda>current_table_0_0.
     let tables = tables(page_table_0_0 := (tables page_table_0_0)(0 := tables current_table_0_0 0)) in
     Inr (Some page_table, tables, s)))))))"

text \<open>
  The processor's walk of the tables down to level 2, and the addresses of the tables the walk from
  a level 4 table can visit.
\<close>

definition walk :: "('e \<Rightarrow> u64) \<Rightarrow> u64 \<Rightarrow> 'e tables \<Rightarrow> 'e page_table \<Rightarrow> nat \<Rightarrow> nat \<Rightarrow> nat \<Rightarrow> 'e" where
  "walk entry_addr off tables l4 i4 i3 i2 =
     tables (entry_addr (tables (entry_addr (l4 i4) + off) i3) + off) i2"

definition walk_tables :: "('e \<Rightarrow> u64) \<Rightarrow> u64 \<Rightarrow> 'e tables \<Rightarrow> 'e page_table \<Rightarrow> u64 set" where
  "walk_tables entry_addr off tables l4 =
     (\<Union>i. insert (entry_addr (l4 i) + off)
        (range (\<lambda>j. entry_addr (tables (entry_addr (l4 i) + off) j) + off)))"

definition entry_doc :: "(u64 \<Rightarrow> page_flag set \<Rightarrow> 'e) \<Rightarrow> ('e \<Rightarrow> u64) \<Rightarrow> bool" where
  "entry_doc set_addr entry_addr \<longleftrightarrow> (\<forall>a fl. a AND 0xFFF = 0 \<longrightarrow> entry_addr (set_addr a fl) = a)"

lemma copy_entries_apply [simp]: "copy_entries src dst i = (if 1 \<le> i \<and> i < 512 then src i else dst i)"
proof -
  have "fold (\<lambda>i t. t(i := src i)) [1 ..< n] dst i = (if 1 \<le> i \<and> i < n then src i else dst i)" for n
  proof (induction n)
    case (Suc n)
    then show ?case by (cases "n = 0") auto
  qed simp
  then show ?thesis unfolding copy_entries_def .
qed

lemma bindE_add_ck: "bindE (add_ck oc a b) f = Inr y \<longleftrightarrow> add_ck oc a b = Inr (a + b) \<and> f (a + b) = Inr y"
  by (auto simp: add_ck_def)

lemma new_page_table_result:
  assumes doc: "entry_doc set_addr entry_addr"
    and frames: "frame_iter s = f1 # f2 # fs" "start_address f1 AND 0xFFF = 0" "start_address f2 AND 0xFFF = 0"
    and run: "new_page_table oc set_addr entry_addr unused ba_allocate_frame start_address cur mapper tables s = Inr (r, tables', s')"
  defines "v0 \<equiv> start_address f1 + phys_offset mapper" and "v00 \<equiv> start_address f2 + phys_offset mapper"
    and "c0 \<equiv> entry_addr (cur 0) + phys_offset mapper"
  assumes apart: "v0 \<noteq> v00" "c0 \<noteq> v0"
  defines "c00 \<equiv> entry_addr (tables c0 0) + phys_offset mapper"
  assumes apart': "c00 \<noteq> v0"
  shows "s' = s\<lparr>frame_iter := fs\<rparr> \<and>
    r = Some (copy_entries cur ((\<lambda>_. unused)(0 := set_addr (start_address f1) {PRESENT, WRITABLE, USER_ACCESSIBLE}))) \<and>
    tables' = tables(v0 := copy_entries (tables c0) ((\<lambda>_. unused)(0 := set_addr (start_address f2) {PRESENT, WRITABLE})),
                     v00 := (tables v00)(0 := tables c00 0))"
proof -
  have a: "entry_addr (set_addr (start_address f1) fl) = start_address f1"
    "entry_addr (set_addr (start_address f2) fl) = start_address f2" for fl
    using doc frames(2,3) by (simp_all add: entry_doc_def)
  have "(copy_entries (tables c0) (\<lambda>_. unused))(0 := e) = copy_entries (tables c0) ((\<lambda>_. unused)(0 := e))" for e
    by (auto simp: fun_eq_iff)
  then show ?thesis
    using run apart apart' unfolding v0_def v00_def c0_def c00_def
    by (auto simp: new_page_table_def ba_allocate_frame_def frames(1) a Let_def bindE_add_ck)
qed

lemma walk_tablesI:
  "entry_addr (l4 i) + off \<in> walk_tables entry_addr off tables l4"
  "entry_addr (tables (entry_addr (l4 i) + off) j) + off \<in> walk_tables entry_addr off tables l4"
  by (auto simp: walk_tables_def)

text \<open>C23: The page table of a new process: two frames are taken; every level 2 entry the kernel reaches
  from its own table is reached unchanged from the new one (the kernel's pages, the physical memory
  mapping and the VGA buffer), except for the region of level 4 entry 0 and level 3 entry 0 after its
  first entry, where programs are loaded. In that region the new level 2 table has whatever the
  second frame held before: it is not zeroed.\<close>

theorem new_page_table_shares_kernel:
  assumes "entry_doc set_addr entry_addr"
    and "frame_iter s = f1 # f2 # fs" and "start_address f1 AND 0xFFF = 0" and "start_address f2 AND 0xFFF = 0"
    and "start_address f1 \<noteq> start_address f2"
    and fresh: "{start_address f1 + phys_offset mapper, start_address f2 + phys_offset mapper} \<inter>
      walk_tables entry_addr (phys_offset mapper) tables cur = {}"
    and run: "new_page_table oc set_addr entry_addr unused ba_allocate_frame start_address cur mapper tables s = Inr (r, tables', s')"
  shows "\<exists>pt. r = Some pt \<and> s' = s\<lparr>frame_iter := fs\<rparr> \<and>
    (\<forall>i4 < 512. \<forall>i3 < 512. \<forall>i2. (i4, i3) \<noteq> (0, 0) \<or> i2 = 0 \<longrightarrow>
       walk entry_addr (phys_offset mapper) tables' pt i4 i3 i2 = walk entry_addr (phys_offset mapper) tables cur i4 i3 i2) \<and>
    (\<forall>i2 > 0. walk entry_addr (phys_offset mapper) tables' pt 0 0 i2 = tables (start_address f2 + phys_offset mapper) i2)"
proof -
  let ?off = "phys_offset mapper"
  let ?va = "start_address f1 + ?off" and ?vb = "start_address f2 + ?off" and ?ca = "entry_addr (cur 0) + ?off"
  have notin: "x \<noteq> ?va \<and> x \<noteq> ?vb" if "x \<in> walk_tables entry_addr ?off tables cur" for x
    using that fresh by blast
  have c: "?ca \<noteq> ?va \<and> ?ca \<noteq> ?vb" "entry_addr (tables ?ca 0) + ?off \<noteq> ?va"
    using notin walk_tablesI by metis+
  have a: "entry_addr (set_addr (start_address f1) fl) = start_address f1"
    "entry_addr (set_addr (start_address f2) fl) = start_address f2" for fl
    using assms(1,3,4) by (simp_all add: entry_doc_def)
  have "?va \<noteq> ?vb" using assms(5) by simp
  note res = new_page_table_result [where start_address = start_address and entry_addr = entry_addr,
      OF assms(1-4) run \<open>?va \<noteq> ?vb\<close> c(1) [THEN conjunct1] c(2)]
  have main: "walk entry_addr ?off tables' (the r) i4 i3 i2 = walk entry_addr ?off tables cur i4 i3 i2"
    if "i4 < 512" "i3 < 512" "(i4, i3) \<noteq> (0, 0) \<or> i2 = 0" for i4 i3 i2
  proof -
    let ?t = "entry_addr (cur i4) + ?off"
    have t: "?t \<noteq> ?va \<and> ?t \<noteq> ?vb" "entry_addr (tables ?t i3) + ?off \<noteq> ?va \<and> entry_addr (tables ?t i3) + ?off \<noteq> ?vb"
      using notin walk_tablesI by metis+
    show ?thesis
      using that res t c assms(5) a by (cases "i4 = 0"; cases "i3 = 0") (auto simp: walk_def)
  qed
  have "walk entry_addr ?off tables' (the r) 0 0 i2 = tables ?vb i2" if "i2 > 0" for i2
    using that res assms(5) c a by (simp add: walk_def)
  with main show ?thesis
    using res assms(5) c by simp
qed

theorem new_page_table_shares_kernel_witness:
  "\<exists>pt tables' s'.
     new_page_table True (\<lambda>a _. a) (\<lambda>e. e) 0 ba_allocate_frame (\<lambda>f. f) (\<lambda>_. 0x1000)
       \<lparr>level_4_table = 0, phys_offset = 0\<rparr> (\<lambda>v _. if v = 0x6000 then 7 else 0x1000)
       \<lparr>ba_memory_map = [], frame_iter = [0x5000, 0x6000, 0x7000]\<rparr> = Inr (Some pt, tables', s') \<and>
     walk (\<lambda>e. e) 0 tables' pt 3 4 5 = 0x1000 \<and> walk (\<lambda>e. e) 0 tables' pt 0 0 5 = 7"
proof -
  let ?m = "\<lparr>level_4_table = 0, phys_offset = 0\<rparr>"
  let ?t = "(\<lambda>v _. if v = 0x6000 then 7 else 0x1000) :: u64 tables"
  let ?s = "\<lparr>ba_memory_map = [], frame_iter = [0x5000, 0x6000, 0x7000 :: u64]\<rparr>"
  let ?run = "new_page_table True (\<lambda>a _. a) (\<lambda>e. e) 0 ba_allocate_frame (\<lambda>f. f) (\<lambda>_. 0x1000) ?m ?t ?s"
  have "\<exists>r t' s'. ?run = Inr (r, t', s')"
    by (simp add: new_page_table_def ba_allocate_frame_def add_ck_def Let_def)
  then obtain r t' s' where run: "?run = Inr (r, t', s')" by blast
  have "entry_doc (\<lambda>a _. a) (\<lambda>e. e)" by (simp add: entry_doc_def)
  moreover have "walk_tables (\<lambda>e. e) 0 ?t (\<lambda>_. 0x1000) = {0x1000}" by (simp add: walk_tables_def)
  ultimately obtain pt where pt: "r = Some pt"
    and w: "\<forall>i4 < 512. \<forall>i3 < 512. \<forall>i2. (i4, i3) \<noteq> (0, 0) \<or> i2 = 0 \<longrightarrow>
       walk (\<lambda>e. e) 0 t' pt i4 i3 i2 = walk (\<lambda>e. e) 0 ?t (\<lambda>_. 0x1000) i4 i3 i2"
    and g: "\<forall>i2 > 0. walk (\<lambda>e. e) 0 t' pt 0 0 i2 = ?t 0x6000 i2"
    using new_page_table_shares_kernel [where start_address = "\<lambda>f. f", OF _ _ _ _ _ _ run, of "0x5000" "0x6000" "[0x7000]"]
    by auto
  have "walk (\<lambda>e. e) 0 t' pt 3 4 5 = 0x1000" using w by (simp add: walk_def)
  moreover have "walk (\<lambda>e. e) 0 t' pt 0 0 5 = 7" using g by simp
  ultimately show ?thesis using run pt by blast
qed

section \<open>The user stack\<close>

fun map_stack_pages ::
  "('s \<Rightarrow> ('f option \<times> 's) rust) \<Rightarrow> ('f, 'm, 's) map_to_fn \<Rightarrow> u64 list \<Rightarrow> 'm \<Rightarrow> 's \<Rightarrow> ('m \<times> 's) rust" where
  "map_stack_pages allocate_frame map_to [] m s = Inr (m, s)"
| "map_stack_pages allocate_frame map_to (page # pages) m s =
     bindE (allocate_frame s) (\<lambda>(r, s).
     bindE (expect ''called `Option::unwrap()` on a `None` value'' r) (\<lambda>frame.
     bindE (map_to page frame {PRESENT, WRITABLE, USER_ACCESSIBLE} m s) (\<lambda>(e, m, s).
     case e of
       Inl err \<Rightarrow> Inl (UnwrapFailed ''called `Result::unwrap()` on an `Err` value'')
     | Inr _ \<Rightarrow> map_stack_pages allocate_frame map_to pages m s)))"

definition map_stack ::
  "(u64 \<Rightarrow> u64 \<Rightarrow> u64 list) \<Rightarrow> ('s \<Rightarrow> ('f option \<times> 's) rust) \<Rightarrow> ('f, 'm, 's) map_to_fn \<Rightarrow> 'm \<Rightarrow> 's \<Rightarrow> ('m \<times> 's) rust" where
  "map_stack page_range allocate_frame map_to m s =
     map_stack_pages allocate_frame map_to (page_range USERSPACE_STACK_BASE USERSPACE_STACK) m s"

text \<open>Where it does not panic, the loop does what the heap's loop does.\<close>

lemma map_stack_pages_eq:
  "map_stack_pages allocate_frame map_to pages m s = Inr (m', s') \<longleftrightarrow>
   map_heap_pages allocate_frame map_to {PRESENT, WRITABLE, USER_ACCESSIBLE} pages m s = Inr (Inr (), m', s')"
proof (induction pages arbitrary: m s)
  case (Cons p ps)
  show ?case
  proof (cases "allocate_frame s")
    case (Inr rs)
    then obtain r s1 where a: "allocate_frame s = Inr (r, s1)" by (cases rs) auto
    show ?thesis
    proof (cases r)
      case (Some f)
      show ?thesis
      proof (cases "map_to p f {PRESENT, WRITABLE, USER_ACCESSIBLE} m s1")
        case (Inr x)
        then show ?thesis
          using a Some Cons.IH by (cases x; cases "fst x") auto
      qed (simp add: a Some)
    qed (simp add: a)
  qed simp
qed simp

lemma stack_pages_eq:
  "inclusive_pages USERSPACE_STACK_BASE USERSPACE_STACK = map (\<lambda>i. of_nat (4096 * i)) [0x800 ..< 0x811]"
  by (simp add: inclusive_pages_def USERSPACE_STACK_BASE_def USERSPACE_STACK_def del: upt_rec_numeral)

text \<open>When \<^verbatim>\<open>map_stack\<close> returns, the 64 KiB below the initial stack pointer of a process, and the page
  above it, are mapped for user access to distinct frames taken from the allocator.\<close>

theorem map_stack_maps_stack:
  assumes "page_range_doc page_range"
    and "map_to_contract map_to lookup frame_iter (\<lambda>_. True)"
    and "distinct (frame_iter s)"
    and "map_stack page_range ba_allocate_frame map_to m s = Inr (m', s')"
  shows "\<exists>fs. subseq fs (frame_iter s) \<and> distinct fs \<and> length fs = 17 \<and>
    (\<forall>i < 17. lookup m' (0x800000 + of_nat (4096 * i)) = Some (fs ! i, {PRESENT, WRITABLE, USER_ACCESSIBLE}))"
proof -
  let ?pages = "map (\<lambda>i. of_nat (4096 * i)) [0x800 ..< 0x811] :: u64 list" and ?fl = "{PRESENT, WRITABLE, USER_ACCESSIBLE}"
  have "map_heap_pages ba_allocate_frame map_to ?fl ?pages m s = Inr (Inr (), m', s')"
    using assms(1,4) unfolding map_stack_def page_range_doc_def by (simp only: stack_pages_eq map_stack_pages_eq)
  from buddy.map_heap_pages_frames [OF assms(2) TrueI this] obtain fs where
    len: "length fs = length ?pages" and sub: "subseq fs (frame_iter s)" and dist: "distinct ?pages"
    and lk: "lookup m' = lookup m ++ map_of (zip ?pages (map (\<lambda>f. (f, ?fl)) fs))"
    by blast
  have "lookup m' (?pages ! i) = Some (fs ! i, ?fl)" if "i < length ?pages" for i
    unfolding lk by (rule zip_mapped_at) (use that len dist in simp_all)
  moreover have "length ?pages = 17" by (simp del: upt_rec_numeral)
  moreover have "?pages ! i = 0x800000 + of_nat (4096 * i)" if "i < 17" for i
    using that by (simp add: algebra_simps del: upt_rec_numeral)
  ultimately show ?thesis
    using sub len subseq_distinctD [OF sub assms(3)] by metis
qed

theorem map_stack_maps_stack_witness:
  "\<exists>m' s'. map_stack inclusive_pages ba_allocate_frame table_map_to Map.empty
       \<lparr>ba_memory_map = [], frame_iter = map of_nat [1 ..< 18]\<rparr> = Inr (m', s') \<and> m' 0x80F000 \<noteq> None"
proof -
  let ?s = "\<lparr>ba_memory_map = [], frame_iter = map of_nat [1 ..< 18] :: u64 list\<rparr>"
  have "\<exists>m' s'. map_stack inclusive_pages ba_allocate_frame table_map_to Map.empty ?s = Inr (m', s')"
    by (simp add: map_stack_def stack_pages_eq upt_eval ba_allocate_frame_def table_map_to_def)
  then obtain m' s' where run: "map_stack inclusive_pages ba_allocate_frame table_map_to Map.empty ?s = Inr (m', s')"
    by blast
  have "distinct (frame_iter ?s)" by (simp add: upt_eval)
  from map_stack_maps_stack [OF _ table_map_to_contract this run]
  obtain fs where "\<forall>i < 17. m' (0x800000 + of_nat (4096 * i)) = Some (fs ! i, {PRESENT, WRITABLE, USER_ACCESSIBLE})"
    by (auto simp: page_range_doc_def)
  from this [rule_format, of 15] run show ?thesis by auto
qed

end
