(* ===== verification/Scheduler.thy ===== *)
theory Scheduler
  imports Process
begin

text \<open>
  \<^verbatim>\<open>src/threading/scheduler.rs\<close>: the round robin scheduler. The loop of \<^verbatim>\<open>get_next_task\<close> need not end, so
  it is a partial function: \<open>None\<close> is the value of a call that never returns, \<open>Some (Inl p)\<close> of one that
  panics. \<^verbatim>\<open>swap_tasks\<close> gives control to a process: its result says which one, or that the caller goes on.
\<close>

section \<open>Definitions\<close>

definition QUANTUM :: u32 where
  "QUANTUM = 20"

datatype TaskState = READY | RUNNING | WAITING | DONE

record 'f Task =
  state :: TaskState
  process :: "'f Process"
  pid :: u64

record 'f Scheduler =
  tasks :: "'f Task list"
  current_task_ticks :: u32
  next_task_id :: u64
  current_task :: usize
  is_enabled :: bool

datatype TaskKillError = DoesNotExist

abbreviation usize_MAX :: usize where
  "usize_MAX \<equiv> - 1"

definition SCHEDULER :: "'f Scheduler" where
  "SCHEDULER = \<lparr>tasks = [], current_task_ticks = 0, next_task_id = 0,
     current_task = usize_MAX - 1, is_enabled = False\<rparr>"

definition enable :: "'f Scheduler \<Rightarrow> 'f Scheduler" where
  "enable s = s\<lparr>is_enabled := True\<rparr>"

text \<open>\<^verbatim>\<open>VecDeque::remove\<close>.\<close>

definition remove_at :: "nat \<Rightarrow> 'a list \<Rightarrow> 'a list" where
  "remove_at i xs = take i xs @ drop (Suc i) xs"

partial_function (option) next_task_loop :: "bool \<Rightarrow> 'f Scheduler \<Rightarrow> (usize \<times> 'f Scheduler) rust option" where
  "next_task_loop oc s =
     (case add_ck oc (current_task s) 1 of
        Inl e \<Rightarrow> Some (Inl e)
      | Inr c \<Rightarrow>
          (let c = (if length (tasks s) \<le> unat c then 0 else c);
               s = s\<lparr>current_task := c\<rparr>
           in case get_opt (tasks s) (unat c) of
                None \<Rightarrow> next_task_loop oc s
              | Some task \<Rightarrow>
                  (case state task of
                     DONE \<Rightarrow>
                       (case sub_ck oc c 1 of
                          Inl e \<Rightarrow> Some (Inl e)
                        | Inr c' \<Rightarrow> next_task_loop oc (s\<lparr>tasks := remove_at (unat c) (tasks s), current_task := c'\<rparr>))
                   | WAITING \<Rightarrow> next_task_loop oc s
                   | RUNNING \<Rightarrow> Some (Inl (ExplicitPanic ''Process falsely claims to be running''))
                   | READY \<Rightarrow> Some (Inr (c, s)))))"

definition get_next_task :: "bool \<Rightarrow> 'f Scheduler \<Rightarrow> (usize \<times> 'f Scheduler) rust option" where
  "get_next_task oc s = (if tasks s = [] then Some (Inr (usize_MAX, s)) else next_task_loop oc s)"

definition update_current :: "('f Task \<Rightarrow> 'f Task) \<Rightarrow> 'f Scheduler \<Rightarrow> 'f Scheduler" where
  "update_current f s =
     (case get_opt (tasks s) (unat (current_task s)) of
        None \<Rightarrow> s
      | Some task \<Rightarrow> s\<lparr>tasks := (tasks s)[unat (current_task s) := f task]\<rparr>)"

datatype 'f switch = Stay | Run "'f Process"

definition switch_to_next :: "bool \<Rightarrow> 'f Scheduler \<Rightarrow> ('f switch \<times> 'f Scheduler) rust option" where
  "switch_to_next oc s =
     (case get_next_task oc (s\<lparr>current_task_ticks := 0\<rparr>) of
        None \<Rightarrow> None
      | Some (Inl e) \<Rightarrow> Some (Inl e)
      | Some (Inr (_, s)) \<Rightarrow>
          (case get_opt (tasks s) (unat (current_task s)) of
             None \<Rightarrow> Some (Inr (Stay, s))
           | Some next_task \<Rightarrow> Some (Inr (Run (process next_task), update_current (state_update (\<lambda>_. RUNNING)) s))))"

text \<open>\<open>c\<close> is the processor inside the call of \<^verbatim>\<open>deactivate\<close>.\<close>

definition swap_tasks :: "bool \<Rightarrow> cpu \<Rightarrow> 'f Scheduler \<Rightarrow> ('f switch \<times> 'f Scheduler) rust option" where
  "swap_tasks oc c s =
     (case get_opt (tasks s) (unat (current_task s)) of
        None \<Rightarrow> switch_to_next oc s
      | Some current \<Rightarrow>
          (let (is_resumed, p) = deactivate c (process current);
               s = update_current (process_update (\<lambda>_. p)) s
           in if is_resumed then Some (Inr (Stay, s)) else switch_to_next oc s))"

definition tick :: "bool \<Rightarrow> cpu \<Rightarrow> 'f Scheduler \<Rightarrow> ('f switch \<times> 'f Scheduler) rust option" where
  "tick oc c s =
     (if \<not> is_enabled s then Some (Inr (Stay, s))
      else case add_ck oc (current_task_ticks s) 1 of
             Inl e \<Rightarrow> Some (Inl e)
           | Inr n \<Rightarrow>
               (let s = s\<lparr>current_task_ticks := n\<rparr>
                in if QUANTUM \<le> n then swap_tasks oc c (update_current (state_update (\<lambda>_. READY)) s)
                   else Some (Inr (Stay, s))))"

definition block_current :: "bool \<Rightarrow> cpu \<Rightarrow> 'f Scheduler \<Rightarrow> ('f switch \<times> 'f Scheduler) rust option" where
  "block_current oc c s = swap_tasks oc c (update_current (state_update (\<lambda>_. WAITING)) s)"

definition push_task :: "bool \<Rightarrow> 'f Process \<Rightarrow> 'f Scheduler \<Rightarrow> (u64 \<times> 'f Scheduler) rust" where
  "push_task oc p s =
     bindE (add_ck oc (next_task_id s) 1) (\<lambda>id.
     let task = \<lparr>state = READY, process = p, pid = id\<rparr>;
         s = s\<lparr>next_task_id := id, tasks := tasks s @ [task]\<rparr>
     in bindE (add_ck oc (next_task_id s) 1) (\<lambda>id'. Inr (id, s\<lparr>next_task_id := id'\<rparr>)))"

definition end_task :: "u64 \<Rightarrow> 'f Scheduler \<Rightarrow> (TaskKillError + unit) \<times> 'f Scheduler" where
  "end_task p s =
     (case position (\<lambda>t. pid t = p) (tasks s) of
        None \<Rightarrow> (Inl DoesNotExist, s)
      | Some i \<Rightarrow> (Inr (), s\<lparr>tasks := (tasks s)[i := (tasks s ! i)\<lparr>state := DONE\<rparr>]\<rparr>))"

text \<open>When \<^verbatim>\<open>swap_tasks\<close> gives \<open>Stay\<close>, \<^verbatim>\<open>end_current_task\<close> halts until an interrupt.\<close>

definition end_current_task :: "bool \<Rightarrow> cpu \<Rightarrow> 'f Scheduler \<Rightarrow> ('f switch \<times> 'f Scheduler) rust option" where
  "end_current_task oc c s =
     (case get_opt (tasks s) (unat (current_task s)) of
        None \<Rightarrow> Some (Inl (UnwrapFailed ''failed to get current task''))
      | Some task \<Rightarrow> swap_tasks oc c (update_current (state_update (\<lambda>_. DONE)) s))"

section \<open>The scan\<close>

text \<open>
  The loop reads the task list like a zipper: \<open>pre\<close> has been scanned, \<open>post\<close> is ahead. Waiting tasks
  are stepped over, finished ones dropped, and at the end the scan starts over.
\<close>

definition zip_at :: "'f Scheduler \<Rightarrow> 'f Task list \<Rightarrow> 'f Task list \<Rightarrow> bool" where
  "zip_at s pre post \<longleftrightarrow>
     tasks s = pre @ post \<and> length (tasks s) < 2 ^ 63 \<and>
     (unat (current_task s + 1) = length pre \<or> pre = [] \<and> length post \<le> unat (current_task s + 1))"

definition live :: "'f Task list \<Rightarrow> 'f Task list" where
  "live ts = filter (\<lambda>t. state t \<noteq> DONE) ts"

definition no_overflow :: "bool \<Rightarrow> 'f Scheduler \<Rightarrow> bool" where
  "no_overflow oc s \<longleftrightarrow> (oc \<longrightarrow> current_task s \<noteq> usize_MAX)"

lemma unat_usize_MAX: "unat usize_MAX = 2 ^ 64 - 1"
  by (simp add: unsigned_minus_1_eq_mask mask_eq_exp_minus_1)

lemma zip_atD:
  assumes "zip_at s pre post"
  shows "tasks s = pre @ post" and "length pre + length post < 2 ^ 63"
    and "unat (current_task s + 1) = length pre \<or> pre = [] \<and> length post \<le> unat (current_task s + 1)"
proof -
  have "tasks s = pre @ post \<and> length (tasks s) < 2 ^ 63"
    using assms unfolding zip_at_def by blast
  then show "tasks s = pre @ post" and "length pre + length post < 2 ^ 63" by auto
qed (use assms in \<open>simp add: zip_at_def\<close>)

lemma unat_index: "n < 2 ^ 63 \<Longrightarrow> unat (of_nat n :: usize) = n"
  by (simp add: unat_of_nat_small)

lemma index_not_MAX: "n < 2 ^ 63 \<Longrightarrow> (of_nat n :: usize) \<noteq> usize_MAX"
proof
  assume "n < 2 ^ 63" and "(of_nat n :: usize) = usize_MAX"
  then have "n = unat usize_MAX" using unat_index [of n] by simp
  with \<open>n < 2 ^ 63\<close> show False by (simp add: unat_usize_MAX)
qed

lemma index_Suc:
  assumes "c \<noteq> usize_MAX"
  shows "unat c + 1 < 2 ^ 64" and "unat (c + 1) = Suc (unat c)"
proof -
  have "unat c \<noteq> unat usize_MAX" using assms by (simp add: word_unat_eq_iff)
  then show lt: "unat c + 1 < 2 ^ 64" using unat_less_u64 [of c] by (simp add: unat_usize_MAX)
  then show "unat (c + 1) = Suc (unat c)" using unat_add_small [of c 1] by simp
qed

lemma add_ck_current: "no_overflow oc s \<Longrightarrow> add_ck oc (current_task s) 1 = Inr (current_task s + 1)"
  using index_Suc(1) [of "current_task s"] by (auto simp: add_ck_def no_overflow_def)

definition scan_index :: "'f Scheduler \<Rightarrow> usize" where
  "scan_index s = (if length (tasks s) \<le> unat (current_task s + 1) then 0 else current_task s + 1)"

lemma zip_at_index:
  assumes "zip_at s pre (t # post)"
  shows "scan_index s = of_nat (length pre)" and "unat (scan_index s) = length pre"
    and "tasks s = pre @ t # post" and "scan_index s \<noteq> usize_MAX"
proof -
  note ts = zip_atD(1) [OF assms] and len = zip_atD(2) [OF assms] and c = zip_atD(3) [OF assms]
  show i: "unat (scan_index s) = length pre"
    using ts c by (auto simp: scan_index_def)
  moreover have "scan_index s = of_nat (unat (scan_index s))" by simp
  ultimately show "scan_index s = of_nat (length pre)" by simp
  show "tasks s = pre @ t # post" by (rule ts)
  show "scan_index s \<noteq> usize_MAX"
    using index_not_MAX [of "length pre"] len \<open>scan_index s = of_nat (length pre)\<close> by simp
qed

lemma zip_at_wrap: "zip_at s pre [] \<Longrightarrow> zip_at s [] pre"
  by (auto simp: zip_at_def)

lemma loop_unfold:
  assumes "no_overflow oc s" and "zip_at s pre (t # post)"
  shows "next_task_loop oc s =
    (let s' = s\<lparr>current_task := of_nat (length pre)\<rparr>
     in case state t of
          DONE \<Rightarrow> (if oc \<and> pre = [] then Some (Inl ArithOverflow)
                   else next_task_loop oc (s\<lparr>tasks := pre @ post, current_task := of_nat (length pre) - 1\<rparr>))
        | WAITING \<Rightarrow> next_task_loop oc s'
        | RUNNING \<Rightarrow> Some (Inl (ExplicitPanic ''Process falsely claims to be running''))
        | READY \<Rightarrow> Some (Inr (of_nat (length pre), s')))"
proof -
  note z = zip_at_index [OF assms(2)]
  have pos: "\<not> oc \<or> pre \<noteq> [] \<Longrightarrow> sub_ck oc (scan_index s) 1 = Inr (scan_index s - 1)"
    and zero: "oc \<Longrightarrow> pre = [] \<Longrightarrow> sub_ck oc (scan_index s) 1 = Inl ArithOverflow"
    using z(2) by (auto simp: sub_ck_def word_less_nat_alt Suc_le_eq)
  have "next_task_loop oc s =
     (let c = scan_index s; s = s\<lparr>current_task := c\<rparr>
      in case get_opt (tasks s) (unat c) of
           None \<Rightarrow> next_task_loop oc s
         | Some task \<Rightarrow>
             (case state task of
                DONE \<Rightarrow>
                  (case sub_ck oc c 1 of
                     Inl e \<Rightarrow> Some (Inl e)
                   | Inr c' \<Rightarrow> next_task_loop oc (s\<lparr>tasks := remove_at (unat c) (tasks s), current_task := c'\<rparr>))
              | WAITING \<Rightarrow> next_task_loop oc s
              | RUNNING \<Rightarrow> Some (Inl (ExplicitPanic ''Process falsely claims to be running''))
              | READY \<Rightarrow> Some (Inr (c, s))))"
    unfolding scan_index_def
    by (subst next_task_loop.simps) (simp only: add_ck_current [OF assms(1)] sum.case Let_def)
  then have "next_task_loop oc s =
     (case state t of
        DONE \<Rightarrow> (case sub_ck oc (scan_index s) 1 of
                   Inl e \<Rightarrow> Some (Inl e)
                 | Inr c' \<Rightarrow> next_task_loop oc (s\<lparr>tasks := pre @ post, current_task := c'\<rparr>))
      | WAITING \<Rightarrow> next_task_loop oc (s\<lparr>current_task := scan_index s\<rparr>)
      | RUNNING \<Rightarrow> Some (Inl (ExplicitPanic ''Process falsely claims to be running''))
      | READY \<Rightarrow> Some (Inr (scan_index s, s\<lparr>current_task := scan_index s\<rparr>)))"
    by (cases "state t") (simp_all add: Let_def z(2,3) remove_at_def cong: sum.case_cong)
  with pos zero show ?thesis
    by (cases "oc \<and> pre = []") (auto simp: z(1) Let_def split: TaskState.splits)
qed

text \<open>Tasks that are waiting or done are scanned; the done ones are dropped.\<close>

lemma scan_prefix:
  assumes "zip_at s pre (xs @ post)" and "no_overflow oc s"
    and "\<forall>t \<in> set xs. state t = WAITING \<or> state t = DONE"
    and "oc \<Longrightarrow> pre \<noteq> [] \<or> xs = [] \<or> state (hd xs) \<noteq> DONE"
  shows "\<exists>c. let s' = s\<lparr>tasks := pre @ live xs @ post, current_task := c\<rparr>
    in next_task_loop oc s = next_task_loop oc s' \<and> zip_at s' (pre @ live xs) post \<and> no_overflow oc s'"
  using assms
proof (induction xs arbitrary: s pre)
  case Nil
  then have "s\<lparr>tasks := pre @ live [] @ post, current_task := current_task s\<rparr> = s"
    by (simp add: zip_at_def live_def)
  with Nil show ?case
    by (intro exI [of _ "current_task s"]) (simp add: live_def Let_def)
next
  case (Cons t xs)
  have len: "length pre + length (t # xs @ post) < 2 ^ 63" using zip_atD(2) [OF Cons.prems(1)] by simp
  then have i: "unat (of_nat (length pre) :: usize) = length pre" by (simp add: unat_index)
  have z: "zip_at s pre (t # xs @ post)" using Cons.prems(1) by simp
  note u = loop_unfold [OF Cons.prems(2) z]
  show ?case
  proof (cases "state t = DONE")
    case True
    let ?s = "s\<lparr>tasks := pre @ xs @ post, current_task := of_nat (length pre) - 1\<rparr>"
    have "\<not> (oc \<and> pre = [])" using Cons.prems(4) True by auto
    then have eq: "next_task_loop oc s = next_task_loop oc ?s"
      unfolding u Let_def by (simp only: True TaskState.case if_False)
    have "zip_at ?s pre (xs @ post)"
      using len i by (simp add: zip_at_def)
    moreover have "no_overflow oc ?s"
      using \<open>\<not> (oc \<and> pre = [])\<close> len i by (auto simp: no_overflow_def)
    ultimately show ?thesis
      using Cons.IH [of ?s pre] Cons.prems(3,4) True eq \<open>\<not> (oc \<and> pre = [])\<close> by (simp add: live_def Let_def)
  next
    case False
    then have w: "state t = WAITING" using Cons.prems(3) by auto
    let ?s = "s\<lparr>current_task := of_nat (length pre)\<rparr>"
    have eq: "next_task_loop oc s = next_task_loop oc ?s"
      unfolding u Let_def by (simp only: w TaskState.case)
    have "unat (of_nat (length pre) + 1 :: usize) = length pre + 1"
      using len unat_index [of "length pre + 1"] by (simp add: add.commute)
    then have "zip_at ?s (pre @ [t]) (xs @ post)"
      using len zip_atD(1) [OF z] by (simp add: zip_at_def)
    moreover have "no_overflow oc ?s"
      using index_not_MAX [of "length pre"] len by (simp add: no_overflow_def)
    ultimately show ?thesis
      using Cons.IH [of ?s "pre @ [t]"] Cons.prems(3) w eq by (simp add: live_def Let_def)
  qed
qed

section \<open>Round robin\<close>

text \<open>
  The reference: the first ready task after the current one, cyclically; finished tasks met on the
  way are forgotten. The result is the task with the tasks before and after it in the new list.
\<close>

definition find_ready :: "'f Task list \<Rightarrow> ('f Task list \<times> 'f Task \<times> 'f Task list) option" where
  "find_ready ts =
     (case dropWhile (\<lambda>t. state t \<noteq> READY) ts of
        [] \<Rightarrow> None
      | t # ys \<Rightarrow> Some (takeWhile (\<lambda>t. state t \<noteq> READY) ts, t, ys))"

definition round_robin :: "'f Task list \<Rightarrow> 'f Task list \<Rightarrow> ('f Task list \<times> 'f Task \<times> 'f Task list) option" where
  "round_robin pre post =
     (case find_ready post of
        Some (xs, t, ys) \<Rightarrow> Some (pre @ live xs, t, ys)
      | None \<Rightarrow>
          (case find_ready pre of
             Some (xs, t, ys) \<Rightarrow> Some (live xs, t, ys @ live post)
           | None \<Rightarrow> None))"

definition scanned :: "'f Scheduler \<Rightarrow> nat" where
  "scanned s = (if Suc (unat (current_task s)) \<le> length (tasks s) then Suc (unat (current_task s)) else 0)"

lemma find_ready_Some:
  assumes "find_ready ts = Some (xs, t, ys)"
  shows "ts = xs @ t # ys" and "state t = READY" and "\<forall>x \<in> set xs. state x \<noteq> READY"
proof -
  obtain ts' where d: "dropWhile (\<lambda>t. state t \<noteq> READY) ts = t # ts'" "ys = ts'"
    and x: "xs = takeWhile (\<lambda>t. state t \<noteq> READY) ts"
    using assms by (auto simp: find_ready_def split: list.splits)
  then show "ts = xs @ t # ys" by (metis takeWhile_dropWhile_id)
  show "state t = READY" using d by (simp add: dropWhile_eq_Cons_conv)
  show "\<forall>x \<in> set xs. state x \<noteq> READY" using x by (auto dest: set_takeWhileD)
qed

lemma find_ready_None: "find_ready ts = None \<longleftrightarrow> (\<forall>t \<in> set ts. state t \<noteq> READY)"
proof -
  have "find_ready ts = None \<longleftrightarrow> dropWhile (\<lambda>t. state t \<noteq> READY) ts = []"
    by (cases "dropWhile (\<lambda>t. state t \<noteq> READY) ts")
      (simp_all only: find_ready_def list.case option.distinct list.distinct simp_thms)
  then show ?thesis by (simp add: dropWhile_eq_Nil_conv)
qed

lemma scan_finds:
  assumes "zip_at s pre (xs @ t # ys)" and "no_overflow oc s" and "state t = READY"
    and "\<forall>t \<in> set xs. state t = WAITING \<or> state t = DONE"
    and "oc \<Longrightarrow> pre \<noteq> [] \<or> xs = [] \<or> state (hd xs) \<noteq> DONE"
  shows "next_task_loop oc s = Some (Inr (of_nat (length (pre @ live xs)),
    s\<lparr>tasks := pre @ live xs @ t # ys, current_task := of_nat (length (pre @ live xs))\<rparr>))"
proof -
  obtain c where c: "next_task_loop oc s = next_task_loop oc (s\<lparr>tasks := pre @ live xs @ t # ys, current_task := c\<rparr>)"
    "zip_at (s\<lparr>tasks := pre @ live xs @ t # ys, current_task := c\<rparr>) (pre @ live xs) (t # ys)"
    "no_overflow oc (s\<lparr>tasks := pre @ live xs @ t # ys, current_task := c\<rparr>)"
    using scan_prefix [OF assms(1,2,4,5)] by (auto simp: Let_def)
  show ?thesis
    unfolding c(1) loop_unfold [OF c(3,2)] by (simp add: assms(3) Let_def)
qed

lemma start_zip:
  assumes "length (tasks s) < 2 ^ 63"
  shows "zip_at s (take (scanned s) (tasks s)) (drop (scanned s) (tasks s))"
proof (cases "Suc (unat (current_task s)) \<le> length (tasks s)")
  case True
  then have "unat (current_task s + 1) = Suc (unat (current_task s))"
    using assms by (intro trans [OF unat_add_small]) auto
  with True assms show ?thesis by (simp add: zip_at_def scanned_def)
next
  case False
  have "unat (current_task s + 1) = Suc (unat (current_task s)) \<or> current_task s = usize_MAX"
    using index_Suc(2) by blast
  with False assms have "length (tasks s) \<le> unat (current_task s + 1) \<or> current_task s + 1 = 0" by auto
  with False assms show ?thesis by (auto simp: zip_at_def scanned_def)
qed

lemma scan_first_pass:
  assumes "zip_at s pre post" and "no_overflow oc s" and "\<forall>t \<in> set post. state t = WAITING \<or> state t = DONE"
    and "oc \<Longrightarrow> pre \<noteq> [] \<or> post = [] \<or> state (hd post) \<noteq> DONE"
  shows "\<exists>c. let s' = s\<lparr>tasks := pre @ live post, current_task := c\<rparr>
    in next_task_loop oc s = next_task_loop oc s' \<and> zip_at s' [] (pre @ live post) \<and> no_overflow oc s'"
  using scan_prefix [of s pre post "[]"] assms zip_at_wrap by (fastforce simp: Let_def)

lemma round_robin_loop:
  assumes z: "zip_at s pre post" and no: "no_overflow oc s"
    and run: "\<forall>t \<in> set (tasks s). state t \<noteq> RUNNING"
    and hd: "oc \<Longrightarrow> state (hd (tasks s)) \<noteq> DONE"
    and rr: "round_robin pre post = Some (l, t, r)"
  shows "next_task_loop oc s = Some (Inr (of_nat (length l), s\<lparr>tasks := l @ t # r, current_task := of_nat (length l)\<rparr>))"
proof -
  have ts: "tasks s = pre @ post" by (rule zip_atD(1) [OF z])
  have idle: "state x = WAITING \<or> state x = DONE" if "x \<in> set (pre @ post)" "state x \<noteq> READY" for x
    using that run ts by (cases "state x") auto
  show ?thesis
  proof (cases "find_ready post")
    case (Some p)
    then obtain xs where fr: "find_ready post = Some (xs, t, r)" "l = pre @ live xs"
      using rr by (cases p) (auto simp: round_robin_def)
    note f = find_ready_Some [OF fr(1)]
    have "oc \<Longrightarrow> pre \<noteq> [] \<or> xs = [] \<or> state (hd xs) \<noteq> DONE"
      using hd ts f(1) by (cases pre; cases xs) auto
    then show ?thesis
      using scan_finds [of s pre xs t r oc] z no f idle fr(2) by simp
  next
    case None
    then obtain xs ys where fr: "find_ready pre = Some (xs, t, ys)" "l = live xs" "r = ys @ live post"
      using rr by (auto simp: round_robin_def split: option.splits)
    note f = find_ready_Some [OF fr(1)]
    have w: "\<forall>t \<in> set post. state t = WAITING \<or> state t = DONE"
      using None idle by (auto simp: find_ready_None)
    have "pre \<noteq> []" using f(1) by auto
    with scan_first_pass [OF z no w] obtain c where c:
      "next_task_loop oc s = next_task_loop oc (s\<lparr>tasks := pre @ live post, current_task := c\<rparr>)"
      "zip_at (s\<lparr>tasks := pre @ live post, current_task := c\<rparr>) [] (xs @ t # ys @ live post)"
      "no_overflow oc (s\<lparr>tasks := pre @ live post, current_task := c\<rparr>)"
      using f(1) by (auto simp: Let_def)
    have "oc \<Longrightarrow> [] \<noteq> [] \<or> xs = [] \<or> state (hd xs) \<noteq> DONE"
      using hd ts f(1) by (cases xs) auto
    then show ?thesis
      unfolding c(1) using scan_finds [OF c(2,3) f(2)] f idle fr(2,3) by simp
  qed
qed

text \<open>
  With no ready task the loop goes round forever. The hypothesis on the first task is about the
  profile with overflow checks, where removing it panics.
\<close>

definition idle :: "bool \<Rightarrow> 'f Scheduler \<Rightarrow> bool" where
  "idle oc s \<longleftrightarrow> (\<forall>t \<in> set (tasks s). state t = WAITING \<or> state t = DONE) \<and> no_overflow oc s \<and>
     length (tasks s) < 2 ^ 63 \<and> (oc \<longrightarrow> tasks s = [] \<or> state (hd (tasks s)) \<noteq> DONE)"

lemma length_remove_at: "length (remove_at i xs) \<le> length xs"
  by (simp add: remove_at_def)

lemma set_remove_at: "set (remove_at i xs) \<subseteq> set xs"
  by (auto simp: remove_at_def dest: in_set_takeD in_set_dropD)

lemma hd_remove_at: "0 < i \<Longrightarrow> xs \<noteq> [] \<Longrightarrow> hd (remove_at i xs) = hd xs \<and> remove_at i xs \<noteq> []"
  by (cases xs; cases i) (auto simp: remove_at_def)

lemma scan_index_bound:
  "tasks s \<noteq> [] \<Longrightarrow> unat (scan_index s) < length (tasks s)" "tasks s = [] \<Longrightarrow> scan_index s = 0"
  by (auto simp: scan_index_def)

lemma idle_loop_diverges:
  assumes "next_task_loop oc s = Some r"
  shows "\<not> idle oc s"
proof (rule next_task_loop.raw_induct [where P = "\<lambda>oc s r. \<not> idle oc s", OF _ assms], goal_cases)
  case (1 loop oc s r)
  note IH = 1(1) and body = 1(2)
  show ?case
  proof
    assume i: "idle oc s"
    let ?c = "scan_index s" let ?s = "s\<lparr>current_task := ?c\<rparr>"
    have no: "no_overflow oc s" using i by (simp add: idle_def)
    note body' = body [unfolded add_ck_current [OF no] sum.case Let_def, folded scan_index_def]
    have c: "?c \<noteq> usize_MAX"
    proof
      assume "?c = usize_MAX"
      then have "unat ?c = 2 ^ 64 - 1" by (simp add: unat_usize_MAX)
      with i scan_index_bound [of s] show False by (cases "tasks s = []") (auto simp: idle_def)
    qed
    show False
    proof (cases "tasks s = []")
      case True
      then have "loop oc ?s = Some r" using body' by simp
      moreover have "idle oc ?s" using i c True by (simp add: idle_def no_overflow_def)
      ultimately show False using IH by blast
    next
      case False
      then have lt: "unat ?c < length (tasks s)" by (rule scan_index_bound)
      then have "state (tasks s ! unat ?c) = WAITING \<or> state (tasks s ! unat ?c) = DONE"
        using i by (auto simp: idle_def)
      then show False
      proof
        assume w: "state (tasks s ! unat ?c) = WAITING"
        have "loop oc ?s = Some r" using body' w lt by simp
        moreover have "idle oc ?s" using i c by (simp add: idle_def no_overflow_def)
        ultimately show False using IH by blast
      next
        assume d: "state (tasks s ! unat ?c) = DONE"
        let ?s' = "s\<lparr>tasks := remove_at (unat ?c) (tasks s), current_task := ?c - 1\<rparr>"
        have pos: "oc \<Longrightarrow> 0 < unat ?c"
          using i d False by (cases "unat ?c") (auto simp: idle_def hd_conv_nth)
        then have "sub_ck oc ?c 1 = Inr (?c - 1)"
          by (auto simp: sub_ck_def word_less_nat_alt)
        then have "loop oc ?s' = Some r" using body' d lt by simp
        moreover have "idle oc ?s'"
          using i pos False set_remove_at [of "unat ?c" "tasks s"] hd_remove_at [of "unat ?c" "tasks s"]
            length_remove_at [of "unat ?c" "tasks s"]
          by (auto simp: idle_def no_overflow_def)
        ultimately show False using IH by blast
      qed
    qed
  qed
qed

section \<open>Invariant\<close>

text \<open>What a call of the loop that returns has done.\<close>

definition next_ok :: "'f Scheduler \<Rightarrow> usize \<Rightarrow> 'f Scheduler \<Rightarrow> bool" where
  "next_ok s c s' \<longleftrightarrow> s' = s\<lparr>tasks := tasks s', current_task := c\<rparr> \<and> subseq (tasks s') (tasks s) \<and>
     live (tasks s') = live (tasks s) \<and> unat c < length (tasks s') \<and> state (tasks s' ! unat c) = READY"

lemma subseq_remove_at: "subseq (remove_at i xs) xs"
proof -
  have "subseq (take i xs @ drop (Suc i) xs) (take i xs @ drop i xs)"
    unfolding subseq_append' using subseq_drop [of 1 "drop i xs"] by simp
  then show ?thesis by (simp add: remove_at_def)
qed

lemma live_remove_at: "i < length xs \<Longrightarrow> state (xs ! i) = DONE \<Longrightarrow> live (remove_at i xs) = live xs"
proof -
  assume i: "i < length xs" and d: "state (xs ! i) = DONE"
  have "live xs = live (take i xs @ xs ! i # drop (Suc i) xs)"
    using i by (simp add: id_take_nth_drop [symmetric])
  then show ?thesis using d by (simp add: live_def remove_at_def)
qed

lemma next_ok_trans:
  assumes "next_ok (s\<lparr>tasks := ts, current_task := d\<rparr>) c s'" and "subseq ts (tasks s)" and "live ts = live (tasks s)"
  shows "next_ok s c s'"
  using assms subseq_order.order_trans by (auto simp: next_ok_def)

lemma next_task_loop_sound:
  assumes "next_task_loop oc s = Some r"
  shows "(\<forall>c s'. r = Inr (c, s') \<longrightarrow> next_ok s c s') \<and>
    ((\<forall>t \<in> set (tasks s). state t \<noteq> RUNNING) \<longrightarrow> (\<forall>m. r \<noteq> Inl (ExplicitPanic m)))"
proof (rule next_task_loop.raw_induct [where P = "\<lambda>oc s r. (\<forall>c s'. r = Inr (c, s') \<longrightarrow> next_ok s c s') \<and>
    ((\<forall>t \<in> set (tasks s). state t \<noteq> RUNNING) \<longrightarrow> (\<forall>m. r \<noteq> Inl (ExplicitPanic m)))", OF _ assms], goal_cases)
  case (1 loop oc s r)
  note IH = 1(1) and body = 1(2)
  show ?case
  proof (cases "add_ck oc (current_task s) 1")
    case (Inl e)
    then show ?thesis using body by (auto simp: add_ck_def split: if_splits)
  next
    case (Inr c)
    define i where "i = (if length (tasks s) \<le> unat c then 0 else c)"
    let ?s = "s\<lparr>current_task := i\<rparr>" and ?r = "\<lambda>c'. s\<lparr>tasks := remove_at (unat i) (tasks s), current_task := c'\<rparr>"
    have eq: "?s = s\<lparr>tasks := tasks s, current_task := i\<rparr>" by simp
    have again: ?thesis if "loop oc ?s = Some r"
      using IH [OF that] next_ok_trans [where ts = "tasks s" and s = s and d = i] by simp
    have removed: ?thesis if "loop oc (?r c') = Some r" and "live (remove_at (unat i) (tasks s)) = live (tasks s)" for c'
      using IH [OF that(1)] next_ok_trans [OF _ subseq_remove_at that(2), where d = c']
        subsetD [OF set_remove_at [of "unat i" "tasks s"]]
      by auto
    note body' = body [unfolded Inr sum.case Let_def, folded i_def]
    show ?thesis
    proof (cases "get_opt (tasks s) (unat i)")
      case None
      then have "loop oc ?s = Some r" using body' by simp
      then show ?thesis by (rule again)
    next
      case (Some t)
      then have t: "unat i < length (tasks s)" "t = tasks s ! unat i" by (auto simp: get_opt_def split: if_splits)
      show ?thesis
      proof (cases "state t")
        case READY
        then have "r = Inr (i, ?s)" using body' Some by (simp split: if_splits)
        then show ?thesis using READY t by (simp add: next_ok_def split: if_splits)
      next
        case RUNNING
        then show ?thesis using body' Some t nth_mem [OF t(1)] by (auto split: if_splits)
      next
        case WAITING
        then have "loop oc ?s = Some r" using body' Some by (simp split: if_splits)
        then show ?thesis by (rule again)
      next
        case DONE
        show ?thesis
        proof (cases "sub_ck oc i 1")
          case (Inl e)
          then have "r = Inl e" using body' Some DONE by (simp split: if_splits)
          then show ?thesis using Inl by (auto simp: sub_ck_def split: if_splits)
        next
          case (Inr c')
          then have "loop oc (?r c') = Some r" using body' Some DONE by (simp split: if_splits)
          moreover have "live (remove_at (unat i) (tasks s)) = live (tasks s)"
            using t DONE by (simp add: live_remove_at)
          ultimately show ?thesis by (rule removed)
        qed
      qed
    qed
  qed
qed

definition not_running :: "'f Scheduler \<Rightarrow> bool" where
  "not_running s \<longleftrightarrow> (\<forall>t \<in> set (tasks s). state t \<noteq> RUNNING)"

definition task_inv :: "'f Scheduler \<Rightarrow> bool" where
  "task_inv s \<longleftrightarrow> distinct (map pid (tasks s)) \<and> (\<forall>t \<in> set (tasks s). pid t \<le> next_task_id s) \<and>
     (\<forall>i < length (tasks s). state (tasks s ! i) = RUNNING \<longrightarrow> i = unat (current_task s))"

definition sched_inv :: "'f Scheduler \<Rightarrow> bool" where
  "sched_inv s \<longleftrightarrow> task_inv s \<and> current_task_ticks s < QUANTUM"

lemma update_current_simps [simp]:
  "length (tasks (update_current f s)) = length (tasks s)"
  "current_task (update_current f s) = current_task s"
  "next_task_id (update_current f s) = next_task_id s"
  "current_task_ticks (update_current f s) = current_task_ticks s"
  "is_enabled (update_current f s) = is_enabled s"
  by (simp_all add: update_current_def split: option.splits)

lemma update_current_nth:
  "i < length (tasks s) \<Longrightarrow> tasks (update_current f s) ! i = (if i = unat (current_task s) then f (tasks s ! i) else tasks s ! i)"
  by (auto simp: update_current_def get_opt_def split: option.splits if_splits)

lemma update_current_pids:
  assumes "\<And>t. pid (f t) = pid t"
  shows "map pid (tasks (update_current f s)) = map pid (tasks s)"
  by (rule nth_equalityI) (simp_all add: update_current_nth assms)

lemma pids_bound: "(\<forall>t \<in> set ts. pid t \<le> n) \<longleftrightarrow> (\<forall>p \<in> set (map pid ts). p \<le> n)"
  by simp

lemma task_inv_update_current:
  assumes "task_inv s" and "\<And>t. pid (f t) = pid t"
  shows "task_inv (update_current f s)"
proof -
  have "\<forall>p \<in> set (map pid (tasks (update_current f s))). p \<le> next_task_id s"
    unfolding update_current_pids [OF assms(2)] using assms(1) by (simp add: task_inv_def)
  moreover have "distinct (map pid (tasks (update_current f s)))"
    unfolding update_current_pids [OF assms(2)] using assms(1) by (simp add: task_inv_def)
  ultimately show ?thesis
    using assms(1) by (auto simp: task_inv_def update_current_nth split: if_splits)
qed

lemma not_running_set_state:
  assumes "task_inv s" and "st \<noteq> RUNNING"
  shows "not_running (update_current (state_update (\<lambda>_. st)) s)"
  using assms by (auto simp: not_running_def task_inv_def update_current_nth in_set_conv_nth split: if_splits)

lemma not_running_set_process:
  "not_running s \<Longrightarrow> not_running (update_current (process_update (\<lambda>_. p)) s)"
  by (auto simp: not_running_def all_set_conv_all_nth update_current_nth)

lemma next_ok_fields:
  assumes "next_ok s c s'"
  shows "current_task s' = c" and "current_task_ticks s' = current_task_ticks s"
    and "next_task_id s' = next_task_id s" and "is_enabled s' = is_enabled s" and "unat c < length (tasks s')"
  using assms by (cases s; cases s'; simp add: next_ok_def)+

lemma next_ok_inv:
  assumes "next_ok s c s'" and "task_inv s" and "not_running s"
  shows "task_inv (update_current (state_update (\<lambda>_. RUNNING)) s')"
proof -
  have sub: "subseq (tasks s') (tasks s)" and s': "s' = s\<lparr>tasks := tasks s', current_task := c\<rparr>"
    using assms(1) by (simp_all add: next_ok_def)
  have "set (tasks s') \<subseteq> set (tasks s)" using sub by (metis notin_set_nthsI subseq_conv_nths subsetI)
  moreover have "distinct (map pid (tasks s'))"
    using subseq_distinctD [OF subseq_map [OF sub, of pid]] assms(2) by (simp add: task_inv_def)
  moreover have "next_task_id s' = next_task_id s" by (subst s') simp
  ultimately have "task_inv s'"
    using assms(2,3) by (auto simp: task_inv_def not_running_def dest!: nth_mem)
  then show ?thesis by (rule task_inv_update_current) simp
qed

lemma get_next_task_cases:
  assumes "get_next_task oc s = Some r"
  shows "(\<forall>c s'. r = Inr (c, s') \<longrightarrow> s' = s \<and> tasks s = [] \<or> next_ok s c s') \<and>
    (not_running s \<longrightarrow> (\<forall>m. r \<noteq> Inl (ExplicitPanic m)))"
proof (cases "tasks s = []")
  case True
  then show ?thesis using assms by (auto simp: get_next_task_def)
next
  case False
  then have "next_task_loop oc s = Some r" using assms by (simp add: get_next_task_def)
  from next_task_loop_sound [OF this] show ?thesis by (auto simp: not_running_def)
qed

lemma switch_to_next_inv:
  assumes "task_inv s" and "not_running s" and "switch_to_next oc s = Some r"
  shows "\<exists>e. r = Inl e \<and> (\<forall>m. e \<noteq> ExplicitPanic m) \<or> (\<exists>sw s'. r = Inr (sw, s') \<and> sched_inv s')"
proof -
  let ?s = "s\<lparr>current_task_ticks := 0\<rparr>"
  have inv: "task_inv ?s" "not_running ?s" using assms by (simp_all add: task_inv_def not_running_def)
  obtain r' where r': "get_next_task oc ?s = Some r'"
    using assms(3) by (cases "get_next_task oc ?s") (auto simp: switch_to_next_def)
  note g = get_next_task_cases [OF r']
  show ?thesis
  proof (cases r')
    case (Inl e)
    then show ?thesis using assms(3) r' g inv(2) by (auto simp: switch_to_next_def)
  next
    case (Inr cs)
    then obtain c s1 where cs: "r' = Inr (c, s1)" by (cases cs) auto
    with g consider "s1 = ?s" "tasks s = []" | "next_ok ?s c s1" by auto
    then show ?thesis
    proof cases
      case 1
      then show ?thesis
        using assms(3) r' cs inv(1) by (auto simp: switch_to_next_def sched_inv_def QUANTUM_def)
    next
      case 2
      note f = next_ok_fields [OF 2]
      have "r = Inr (Run (process (tasks s1 ! unat c)), update_current (state_update (\<lambda>_. RUNNING)) s1)"
        using assms(3) r' cs f by (simp add: switch_to_next_def)
      then show ?thesis
        using next_ok_inv [OF 2 inv] f(2) by (simp add: sched_inv_def QUANTUM_def)
    qed
  qed
qed

text \<open>
  The three operations that reschedule leave the current task not running and swap: each of them
  either panics, never with the message about false running tasks, or reaches a good state again.
\<close>

definition good_outcome :: "('f switch \<times> 'f Scheduler) rust option \<Rightarrow> bool" where
  "good_outcome r \<longleftrightarrow> (\<forall>m. r \<noteq> Some (Inl (ExplicitPanic m))) \<and>
     (\<forall>sw s'. r = Some (Inr (sw, s')) \<longrightarrow> sched_inv s')"

lemma switch_to_next_good: "task_inv s \<Longrightarrow> not_running s \<Longrightarrow> good_outcome (switch_to_next oc s)"
  using switch_to_next_inv [of s oc] by (fastforce simp: good_outcome_def)

lemma swap_tasks_good:
  assumes "task_inv s" and "not_running s"
  shows "good_outcome (swap_tasks oc c s)"
proof -
  have "good_outcome (switch_to_next oc (update_current (process_update (\<lambda>_. p)) s))" for p
    using assms by (intro switch_to_next_good task_inv_update_current not_running_set_process) simp_all
  then show ?thesis
    using switch_to_next_good [OF assms] by (simp add: swap_tasks_def deactivate_def Let_def split: option.split)
qed

lemma reschedule_good:
  assumes "task_inv s" and "st \<noteq> RUNNING"
  shows "good_outcome (swap_tasks oc c (update_current (state_update (\<lambda>_. st)) s))"
  using assms by (intro swap_tasks_good task_inv_update_current not_running_set_state) simp_all

lemma tick_good: "sched_inv s \<Longrightarrow> good_outcome (tick oc c s)"
proof -
  assume inv: "sched_inv s"
  have t: "task_inv (s\<lparr>current_task_ticks := n\<rparr>)" for n
    using inv by (simp add: sched_inv_def task_inv_def)
  from reschedule_good [OF t, of READY] show ?thesis
    using inv t by (auto simp: tick_def good_outcome_def sched_inv_def Let_def not_le add_ck_def)
qed

lemma block_current_good: "sched_inv s \<Longrightarrow> good_outcome (block_current oc c s)"
  unfolding block_current_def by (intro reschedule_good) (simp_all add: sched_inv_def)

lemma end_current_task_good: "sched_inv s \<Longrightarrow> good_outcome (end_current_task oc c s)"
  using reschedule_good [of s DONE] by (auto simp: end_current_task_def good_outcome_def sched_inv_def split: option.split)

lemma push_task_inv:
  assumes "sched_inv s" and "push_task oc p s = Inr (i, s')" and "unat (next_task_id s) + 2 < 2 ^ 64"
  shows "sched_inv s'" and "i \<notin> pid ` set (tasks s)"
proof -
  let ?n = "next_task_id s"
  have lt: "?n < ?n + 1" "?n + 1 < ?n + 2"
    using assms(3) unat_add_small [of ?n 1] unat_add_small [of ?n 2] by (simp_all add: word_less_nat_alt)
  have s': "i = ?n + 1"
    "s' = s\<lparr>next_task_id := ?n + 2, tasks := tasks s @ [\<lparr>state = READY, process = p, pid = i\<rparr>]\<rparr>"
    using assms(2) by (auto simp: push_task_def Let_def bindE_add_ck)
  have old: "pid t \<le> ?n" if "t \<in> set (tasks s)" for t
    using assms(1) that by (simp add: sched_inv_def task_inv_def)
  then show new: "i \<notin> pid ` set (tasks s)"
    using s'(1) lt(1) by fastforce
  have "pid t \<le> ?n + 2" if "t \<in> set (tasks s)" for t
    using old [OF that] lt by (meson order.trans order.strict_implies_order)
  then show "sched_inv s'"
    using assms(1) new lt s' by (auto simp: sched_inv_def task_inv_def nth_append less_Suc_eq)
qed

lemma pid_set_state: "pid (ts[j := (ts ! j)\<lparr>state := st\<rparr>] ! i) = pid (ts ! i)"
  by (cases "j < length ts"; cases "i = j") (simp_all add: list_update_beyond)

lemma end_task_inv:
  assumes "sched_inv s" and "end_task p s = (r, s')"
  shows "sched_inv s'"
proof (cases "position (\<lambda>t. pid t = p) (tasks s)")
  case None
  then show ?thesis using assms by (simp add: end_task_def)
next
  case (Some i)
  let ?ts = "(tasks s)[i := (tasks s ! i)\<lparr>state := DONE\<rparr>]"
  have i: "i < length (tasks s)" using Some by (simp add: position_Some)
  have s': "s' = s\<lparr>tasks := ?ts\<rparr>"
    using assms(2) Some by (simp add: end_task_def)
  have m: "map pid ?ts = map pid (tasks s)"
    by (intro nth_equalityI) (simp_all add: pid_set_state)
  have "\<forall>t \<in> set ?ts. pid t \<le> next_task_id s"
    unfolding pids_bound m using assms(1) by (simp add: sched_inv_def task_inv_def)
  then show ?thesis
    using assms(1) m s' i by (auto simp: sched_inv_def task_inv_def nth_list_update split: if_splits)
qed

section \<open>Runs\<close>

text \<open>
  What the kernel does with the scheduler: processes are pushed and killed, the timer ticks, the
  current task blocks or exits. A process identifier is a 64-bit counter that grows by two.
\<close>

inductive sched_step :: "bool \<Rightarrow> 'f Scheduler \<Rightarrow> 'f Scheduler \<Rightarrow> bool" for oc where
  step_push: "push_task oc p s = Inr (i, s') \<Longrightarrow> unat (next_task_id s) + 2 < 2 ^ 64 \<Longrightarrow> sched_step oc s s'"
| step_enable: "sched_step oc s (enable s)"
| step_kill: "end_task i s = (r, s') \<Longrightarrow> sched_step oc s s'"
| step_tick: "tick oc c s = Some (Inr (sw, s')) \<Longrightarrow> sched_step oc s s'"
| step_block: "block_current oc c s = Some (Inr (sw, s')) \<Longrightarrow> sched_step oc s s'"
| step_exit: "end_current_task oc c s = Some (Inr (sw, s')) \<Longrightarrow> sched_step oc s s'"

inductive sched_reach :: "bool \<Rightarrow> 'f Scheduler \<Rightarrow> bool" for oc where
  reach_init: "sched_reach oc SCHEDULER"
| reach_step: "sched_reach oc s \<Longrightarrow> sched_step oc s s' \<Longrightarrow> sched_reach oc s'"

lemma good_outcomeD: "good_outcome r \<Longrightarrow> r = Some (Inr (sw, s')) \<Longrightarrow> sched_inv s'"
  by (simp add: good_outcome_def)

lemma sched_step_inv: "sched_step oc s s' \<Longrightarrow> sched_inv s \<Longrightarrow> sched_inv s'"
proof (induction rule: sched_step.induct)
  case (step_push p s i s')
  then show ?case by (metis push_task_inv(1))
next
  case (step_enable s)
  then show ?case by (simp add: enable_def sched_inv_def task_inv_def)
next
  case (step_kill i s r s')
  then show ?case by (metis end_task_inv)
next
  case (step_tick c s sw s')
  then show ?case using good_outcomeD [OF tick_good] by blast
next
  case (step_block c s sw s')
  then show ?case using good_outcomeD [OF block_current_good] by blast
next
  case (step_exit c s sw s')
  then show ?case using good_outcomeD [OF end_current_task_good] by blast
qed

lemma sched_reach_inv: "sched_reach oc s \<Longrightarrow> sched_inv s"
proof (induction rule: sched_reach.induct)
  case reach_init
  show ?case by (simp add: SCHEDULER_def sched_inv_def task_inv_def QUANTUM_def)
next
  case (reach_step s s')
  then show ?case using sched_step_inv by blast
qed

text \<open>Concrete states for the examples below: tasks numbered from 1.\<close>

definition example_cpu :: cpu where
  "example_cpu = \<lparr>regs = (\<lambda>_. 0), rip = 0, rflags = 2, seg_cs = 8, seg_ss = 16, cr3 = (0, 0), msr = (\<lambda>_. 0), mem = (\<lambda>_. 0)\<rparr>"

definition example_task :: "u64 \<Rightarrow> TaskState \<Rightarrow> u64 Task" where
  "example_task i st = \<lparr>state = st,
     process = \<lparr>process_state = None, page_table_addr = 0x1000 * i, entry_offset = 0x400000, regions = []\<rparr>, pid = i\<rparr>"

definition example_sched :: "u32 \<Rightarrow> usize \<Rightarrow> TaskState list \<Rightarrow> u64 Scheduler" where
  "example_sched ticks cur sts = \<lparr>tasks = map2 (\<lambda>i st. example_task (of_nat i) st) [1 ..< Suc (length sts)] sts,
     current_task_ticks = ticks, next_task_id = 100, current_task = cur, is_enabled = True\<rparr>"

lemmas example_simps = example_sched_def example_task_def upt_eval

section \<open>Properties\<close>

text \<open>C24: In every reachable state of the scheduler the process identifiers are distinct, only the
  current task can be in the state RUNNING, and the tick counter is below the quantum.\<close>

theorem scheduler_invariant:
  assumes "sched_reach oc s"
  shows "distinct (map pid (tasks s)) \<and>
    (\<forall>i < length (tasks s). state (tasks s ! i) = RUNNING \<longrightarrow> i = unat (current_task s)) \<and>
    current_task_ticks s < 20"
  using sched_reach_inv [OF assms] by (simp add: sched_inv_def task_inv_def QUANTUM_def)

theorem scheduler_invariant_witness:
  "\<exists>s :: u64 Scheduler. sched_reach True s \<and> tasks s \<noteq> [] \<and> distinct (map pid (tasks s)) \<and> current_task_ticks s < 20"
proof -
  obtain i and s :: "u64 Scheduler" where "push_task True (process (example_task 1 READY)) SCHEDULER = Inr (i, s)" "tasks s \<noteq> []"
    by (simp add: push_task_def SCHEDULER_def add_ck_def)
  moreover from this have "sched_reach True s"
    by (intro reach_step [OF reach_init] step_push) (auto simp: SCHEDULER_def)
  ultimately show ?thesis using scheduler_invariant [of True s] by blast
qed

text \<open>In no reachable state does rescheduling stop the kernel with the message that a process
  falsely claims to be running, whether the timer ticks, the current task blocks or it exits.\<close>

theorem never_falsely_running:
  assumes "sched_reach oc s"
  shows "tick oc c s \<noteq> Some (Inl (ExplicitPanic m)) \<and> block_current oc c s \<noteq> Some (Inl (ExplicitPanic m)) \<and>
    end_current_task oc c s \<noteq> Some (Inl (ExplicitPanic m))"
  using sched_reach_inv [OF assms] tick_good [of s oc c] block_current_good [of s oc c] end_current_task_good [of s oc c]
  by (simp add: good_outcome_def)

theorem never_falsely_running_witness:
  "tick True example_cpu (SCHEDULER :: u64 Scheduler) \<noteq> Some (Inl (ExplicitPanic ''Process falsely claims to be running''))"
  using never_falsely_running [OF reach_init] by blast

text \<open>C4: Selecting the next task terminates and is round robin when some task is ready: the task found is
  the first ready one after the current one in cyclic order, finished tasks passed on the way are
  dropped, all others keep their order, and the current index is that of the task found. With
  overflow checks this needs a first task that is not finished.\<close>

theorem get_next_task_round_robin:
  assumes "length (tasks s) < 2 ^ 63" and "oc \<longrightarrow> current_task s \<noteq> usize_MAX \<and> state (hd (tasks s)) \<noteq> DONE"
    and "\<forall>t \<in> set (tasks s). state t \<noteq> RUNNING"
    and "round_robin (take (scanned s) (tasks s)) (drop (scanned s) (tasks s)) = Some (l, t, r)"
  shows "get_next_task oc s = Some (Inr (of_nat (length l), s\<lparr>tasks := l @ t # r, current_task := of_nat (length l)\<rparr>)) \<and>
    state t = READY"
proof -
  have no: "no_overflow oc s" using assms(2) by (simp add: no_overflow_def)
  have "state t = READY"
    using assms(4) find_ready_Some(2) by (auto simp: round_robin_def split: option.splits)
  moreover have "tasks s \<noteq> []"
    using assms(4) by (auto simp: round_robin_def find_ready_def)
  moreover have "next_task_loop oc s = Some (Inr (of_nat (length l), s\<lparr>tasks := l @ t # r, current_task := of_nat (length l)\<rparr>))"
    using assms by (intro round_robin_loop [OF start_zip no _ _ assms(4)]) auto
  ultimately show ?thesis by (simp add: get_next_task_def)
qed

theorem get_next_task_round_robin_witness:
  "get_next_task True (example_sched 0 1 [WAITING, READY, DONE, READY]) =
     Some (Inr (2, (example_sched 0 2 [])\<lparr>tasks := [example_task 1 WAITING, example_task 2 READY, example_task 4 READY]\<rparr>))"
  using get_next_task_round_robin [of "example_sched 0 1 [WAITING, READY, DONE, READY]" True
      "[example_task 1 WAITING, example_task 2 READY]" "example_task 4 READY" "[]"]
  by (simp add: example_simps scanned_def round_robin_def find_ready_def live_def)

text \<open>C25: When tasks exist but none of them is ready, selecting the next task never returns, with the
  scheduler's lock held.\<close>

theorem get_next_task_hangs:
  assumes "length (tasks s) < 2 ^ 63" and "oc \<longrightarrow> current_task s \<noteq> usize_MAX \<and> state (hd (tasks s)) \<noteq> DONE"
    and "tasks s \<noteq> []" and "\<forall>t \<in> set (tasks s). state t = WAITING \<or> state t = DONE"
  shows "get_next_task oc s = None"
proof (cases "next_task_loop oc s")
  case None
  then show ?thesis using assms(3) by (simp add: get_next_task_def)
next
  case (Some r)
  then have "\<not> idle oc s" by (rule idle_loop_diverges)
  then show ?thesis using assms by (simp add: idle_def no_overflow_def)
qed

theorem get_next_task_hangs_witness:
  "get_next_task True (example_sched 0 0 [WAITING, DONE]) = None"
  by (rule get_next_task_hangs) (simp_all add: example_simps)

lemma finished_first:
  assumes "length (tasks s) < 2 ^ 63" and "current_task s \<noteq> usize_MAX" and "tasks s = t # ts" and "state t = DONE"
    and "\<forall>x \<in> set (drop (scanned s) (tasks s)). state x = WAITING \<or> state x = DONE"
  shows "get_next_task True s = Some (Inl ArithOverflow)"
proof -
  have no: "no_overflow True s" using assms(2) by (simp add: no_overflow_def)
  note z = start_zip [OF assms(1)]
  show ?thesis
  proof (cases "scanned s = 0")
    case True
    with z have "zip_at s [] (t # ts)" using assms(3) by simp
    from loop_unfold [OF no this] show ?thesis
      using assms(3,4) by (simp add: get_next_task_def Let_def)
  next
    case False
    let ?pre = "take (scanned s) (tasks s)" and ?post = "drop (scanned s) (tasks s)"
    obtain pre' where pre: "?pre = t # pre'" using False assms(3) by (cases "scanned s") auto
    obtain c where c: "next_task_loop True s = next_task_loop True (s\<lparr>tasks := ?pre @ live ?post, current_task := c\<rparr>)"
      "zip_at (s\<lparr>tasks := ?pre @ live ?post, current_task := c\<rparr>) [] (t # pre' @ live ?post)"
      "no_overflow True (s\<lparr>tasks := ?pre @ live ?post, current_task := c\<rparr>)"
      using scan_first_pass [OF z no assms(5)] pre by (auto simp: Let_def)
    from loop_unfold [OF c(3,2)] show ?thesis
      using assms(3,4) c(1) by (simp add: get_next_task_def Let_def)
  qed
qed

text \<open>With overflow checks the kernel panics as soon as the scan wraps around to a first task that is
  finished: removing it decrements the index 0.\<close>

theorem finished_first_task_panics:
  assumes "length (tasks s) < 2 ^ 63" and "current_task s \<noteq> usize_MAX" and "tasks s = t # ts" and "state t = DONE"
    and "\<forall>x \<in> set (drop (scanned s) (tasks s)). state x = WAITING \<or> state x = DONE"
  shows "get_next_task True s = Some (Inl ArithOverflow)"
  using assms by (rule finished_first)

theorem finished_first_task_panics_witness:
  "get_next_task True (example_sched 0 1 [DONE, READY]) = Some (Inl ArithOverflow)"
  using finished_first_task_panics [of "example_sched 0 1 [DONE, READY]" "example_task 1 DONE" "[example_task 2 READY]"]
  by (simp add: example_simps scanned_def)

lemma swap_only_task:
  assumes "tasks s = [t]" and "current_task s = 0" and "state t = DONE"
  shows "swap_tasks oc c s = switch_to_next oc (update_current (process_update (\<lambda>_. snd (deactivate c (process t)))) s)"
  using assms by (simp add: swap_tasks_def deactivate_def Let_def)

text \<open>C26: When the only task exits, \<^verbatim>\<open>end_current_task\<close> does not reach its halt loop: with overflow checks
  the kernel panics, without them the selection of the next task never returns.\<close>

theorem last_exit_never_halts:
  assumes "tasks s = [t]" and "current_task s = 0"
  shows "end_current_task True c s = Some (Inl ArithOverflow) \<and> end_current_task False c s = None"
proof -
  let ?p = "snd (deactivate c (process t))"
  let ?s = "s\<lparr>tasks := [t\<lparr>state := DONE, process := ?p\<rparr>], current_task_ticks := 0\<rparr>"
  have e: "end_current_task oc c s = switch_to_next oc (s\<lparr>tasks := [t\<lparr>state := DONE, process := ?p\<rparr>]\<rparr>)" for oc
    using assms by (simp add: end_current_task_def update_current_def swap_only_task)
  have "get_next_task True ?s = Some (Inl ArithOverflow)"
    by (rule finished_first [where t = "t\<lparr>state := DONE, process := ?p\<rparr>" and ts = "[]"])
      (use assms(2) in \<open>simp_all add: scanned_def\<close>)
  moreover have "idle False ?s" by (simp add: idle_def no_overflow_def)
  then have "get_next_task False ?s = None"
    using idle_loop_diverges [of False ?s] by (cases "next_task_loop False ?s") (auto simp: get_next_task_def)
  ultimately show ?thesis by (simp add: e switch_to_next_def)
qed

theorem last_exit_never_halts_witness:
  "end_current_task True example_cpu (example_sched 5 0 [RUNNING]) = Some (Inl ArithOverflow)"
  using last_exit_never_halts [of "example_sched 5 0 [RUNNING]" "example_task 1 RUNNING"]
  by (simp add: example_simps)

lemma live_mem: "t \<in> set (live ts) \<longleftrightarrow> t \<in> set ts \<and> state t \<noteq> DONE"
  by (auto simp: live_def)

lemma update_current_mem:
  assumes "t \<in> set (tasks s)"
  shows "t \<in> set (tasks (update_current f s)) \<or> f t \<in> set (tasks (update_current f s))"
proof -
  obtain i where i: "i < length (tasks s)" "t = tasks s ! i" using assms by (auto simp: in_set_conv_nth)
  then have "tasks (update_current f s) ! i \<in> set (tasks (update_current f s))" by simp
  then show ?thesis using i by (auto simp: update_current_nth split: if_splits)
qed

text \<open>A ready task is never dropped by a switch.\<close>

lemma switch_keeps_ready:
  assumes "switch_to_next oc s = Some (Inr (sw, s'))" and "t \<in> set (tasks s)" and "state t = READY"
  shows "\<exists>t' \<in> set (tasks s'). pid t' = pid t \<and> (state t' = READY \<or> state t' = RUNNING)"
proof -
  let ?s = "s\<lparr>current_task_ticks := 0\<rparr>"
  obtain c s1 where g: "get_next_task oc ?s = Some (Inr (c, s1))"
    and s': "s' = s1 \<or> s' = update_current (state_update (\<lambda>_. RUNNING)) s1"
    using assms(1) by (auto simp: switch_to_next_def split: option.splits sum.splits)
  have "tasks s1 = tasks s \<or> live (tasks s1) = live (tasks s)"
    using get_next_task_cases [OF g] by (auto simp: next_ok_def)
  then have "t \<in> set (tasks s1)"
    using assms(2,3) live_mem by (metis TaskState.distinct(5))
  then have "t \<in> set (tasks s') \<or> t\<lparr>state := RUNNING\<rparr> \<in> set (tasks s')"
    using s' update_current_mem [of t s1 "state_update (\<lambda>_. RUNNING)"] by auto
  then show ?thesis
  proof
    assume "t\<lparr>state := RUNNING\<rparr> \<in> set (tasks s')"
    then show ?thesis by (intro bexI) simp_all
  qed (use assms(3) in blast)
qed

lemma swap_keeps_ready:
  assumes "swap_tasks oc c s = Some (Inr (sw, s'))" and "t \<in> set (tasks s)" and "state t = READY"
  shows "\<exists>t' \<in> set (tasks s'). pid t' = pid t \<and> (state t' = READY \<or> state t' = RUNNING)"
proof (cases "get_opt (tasks s) (unat (current_task s))")
  case None
  then show ?thesis using assms switch_keeps_ready by (simp add: swap_tasks_def)
next
  case (Some cur)
  let ?f = "process_update (\<lambda>_. snd (deactivate c (process cur)))"
  have sw: "switch_to_next oc (update_current ?f s) = Some (Inr (sw, s'))"
    using assms(1) Some by (simp add: swap_tasks_def deactivate_def Let_def)
  have "t \<in> set (tasks (update_current ?f s)) \<or> ?f t \<in> set (tasks (update_current ?f s))"
    by (rule update_current_mem [OF assms(2)])
  then obtain t1 where t1: "t1 \<in> set (tasks (update_current ?f s))" "pid t1 = pid t" "state t1 = READY"
    using assms(3) by auto
  from switch_keeps_ready [OF sw t1(1,3)] show ?thesis by (simp add: t1(2))
qed

text \<open>C27: Killing the current task has no effect when its quantum expires before it is rescheduled: the
  timer marks it ready again, and it is still in the task list, ready or running.\<close>

theorem tick_revives_killed:
  assumes "is_enabled s" and "current_task_ticks s = 19"
    and "unat (current_task s) < length (tasks s)" and "pid (tasks s ! unat (current_task s)) = p"
    and "end_task p s = (Inr (), s1)" and "tick oc c s1 = Some (Inr (sw, s2))"
  shows "\<exists>t \<in> set (tasks s2). pid t = p \<and> (state t = READY \<or> state t = RUNNING)"
proof -
  let ?i = "unat (current_task s)"
  obtain j where j: "s1 = s\<lparr>tasks := (tasks s)[j := (tasks s ! j)\<lparr>state := DONE\<rparr>]\<rparr>"
    using assms(5) by (auto simp: end_task_def split: option.splits)
  have p1: "?i < length (tasks s1)" "pid (tasks s1 ! ?i) = p"
    using assms(3,4) by (simp_all add: j pid_set_state)
  let ?s = "update_current (state_update (\<lambda>_. READY)) (s1\<lparr>current_task_ticks := 20\<rparr>)"
  have "tick oc c s1 = swap_tasks oc c ?s"
    using assms(1,2) by (simp add: tick_def j add_ck_def QUANTUM_def)
  then have sw: "swap_tasks oc c ?s = Some (Inr (sw, s2))" using assms(6) by simp
  have "tasks ?s ! ?i = (tasks s1 ! ?i)\<lparr>state := READY\<rparr>"
    using p1 by (subst update_current_nth) (simp_all add: j)
  moreover have "tasks ?s ! ?i \<in> set (tasks ?s)" using p1 by simp
  ultimately show ?thesis
    using swap_keeps_ready [OF sw, of "tasks ?s ! ?i"] p1 by simp
qed

theorem tick_revives_killed_witness:
  "\<exists>s1 sw s2. end_task 1 (example_sched 19 0 [RUNNING, READY]) = (Inr (), s1) \<and>
     tick True example_cpu s1 = Some (Inr (sw, s2)) \<and>
     (\<exists>t \<in> set (tasks s2). pid t = 1 \<and> (state t = READY \<or> state t = RUNNING))"
proof -
  let ?s = "example_sched 19 0 [RUNNING, READY]"
  obtain s1 where s1: "end_task 1 ?s = (Inr (), s1)" and e: "s1 = ?s\<lparr>tasks := [example_task 1 DONE, example_task 2 READY]\<rparr>"
    by (simp add: end_task_def example_simps)
  have "\<exists>sw s2. tick True example_cpu s1 = Some (Inr (sw, s2))"
    unfolding e
    by (simp add: example_simps tick_def add_ck_def QUANTUM_def update_current_def swap_tasks_def deactivate_def
        switch_to_next_def get_next_task_def next_task_loop.simps [of True "\<lparr>tasks = _, current_task_ticks = 0, next_task_id = 100, current_task = 0, is_enabled = True\<rparr>"])
  then obtain sw s2 where t: "tick True example_cpu s1 = Some (Inr (sw, s2))" by blast
  have "\<exists>t \<in> set (tasks s2). pid t = 1 \<and> (state t = READY \<or> state t = RUNNING)"
    by (rule tick_revives_killed [OF _ _ _ _ s1 t]) (simp_all add: example_simps)
  with s1 t show ?thesis by blast
qed

section \<open>Fairness\<close>

text \<open>\<open>k\<close> is running with a fresh quantum and everybody else is ready.\<close>

definition rotating :: "'f Scheduler \<Rightarrow> nat \<Rightarrow> bool" where
  "rotating s k \<longleftrightarrow> is_enabled s \<and> current_task_ticks s = 0 \<and> length (tasks s) < 2 ^ 63 \<and>
     k < length (tasks s) \<and> unat (current_task s) = k \<and>
     (\<forall>i < length (tasks s). state (tasks s ! i) = (if i = k then RUNNING else READY))"

fun run_ticks :: "bool \<Rightarrow> cpu list \<Rightarrow> 'f Scheduler \<Rightarrow> 'f Scheduler rust option" where
  "run_ticks oc [] s = Some (Inr s)"
| "run_ticks oc (c # cs) s =
     (case tick oc c s of
        None \<Rightarrow> None
      | Some (Inl e) \<Rightarrow> Some (Inl e)
      | Some (Inr (_, s')) \<Rightarrow> run_ticks oc cs s')"

lemma run_ticks_append:
  "run_ticks oc (cs @ ds) s =
     (case run_ticks oc cs s of None \<Rightarrow> None | Some (Inl e) \<Rightarrow> Some (Inl e) | Some (Inr s') \<Rightarrow> run_ticks oc ds s')"
  by (induction cs arbitrary: s) (auto split: option.splits sum.splits)

lemma tick_counts:
  assumes "is_enabled s" and "unat (current_task_ticks s) + 1 < 20"
  shows "tick oc c s = Some (Inr (Stay, s\<lparr>current_task_ticks := current_task_ticks s + 1\<rparr>))"
proof -
  have "unat (current_task_ticks s + 1) = unat (current_task_ticks s) + 1"
    using assms(2) unat_add_small [of "current_task_ticks s" 1] by simp
  then have "current_task_ticks s + 1 < QUANTUM" using assms(2) by (simp add: QUANTUM_def word_less_nat_alt)
  then show ?thesis
    using assms by (simp add: tick_def add_ck_ok not_le [symmetric])
qed

lemma ticks_count:
  assumes "is_enabled s" and "unat (current_task_ticks s) + length cs < 20"
  shows "run_ticks oc cs s = Some (Inr (s\<lparr>current_task_ticks := current_task_ticks s + of_nat (length cs)\<rparr>))"
  using assms
proof (induction cs arbitrary: s)
  case Nil
  then show ?case by simp
next
  case (Cons c cs)
  let ?s = "s\<lparr>current_task_ticks := current_task_ticks s + 1\<rparr>"
  have "unat (current_task_ticks s + 1) = unat (current_task_ticks s) + 1"
    using Cons.prems(2) unat_add_small [of "current_task_ticks s" 1] by simp
  then have "run_ticks oc cs ?s = Some (Inr (?s\<lparr>current_task_ticks := current_task_ticks ?s + of_nat (length cs)\<rparr>))"
    using Cons.prems by (intro Cons.IH) simp_all
  then show ?case
    using Cons.prems by (simp add: tick_counts algebra_simps)
qed

text \<open>When the very next task is ready, the scan takes it.\<close>

lemma next_is_ready:
  assumes "length (tasks s) < 2 ^ 63" and "k < length (tasks s)" and "unat (current_task s) = k"
    and "state (tasks s ! (Suc k mod length (tasks s))) = READY"
  shows "get_next_task oc s =
    Some (Inr (of_nat (Suc k mod length (tasks s)), s\<lparr>current_task := of_nat (Suc k mod length (tasks s))\<rparr>))"
proof -
  let ?n = "length (tasks s)"
  have z: "zip_at s (take (Suc k) (tasks s)) (drop (Suc k) (tasks s))"
    using start_zip [OF assms(1)] assms(2,3) by (simp add: scanned_def)
  have no: "no_overflow oc s"
    using assms(1-3) by (auto simp: no_overflow_def unat_usize_MAX)
  have "next_task_loop oc s = Some (Inr (of_nat (Suc k mod ?n), s\<lparr>current_task := of_nat (Suc k mod ?n)\<rparr>))"
  proof (cases "Suc k < ?n")
    case True
    then have d: "drop (Suc k) (tasks s) = tasks s ! Suc k # drop (Suc (Suc k)) (tasks s)" by (simp add: Cons_nth_drop_Suc)
    then have "take (Suc k) (tasks s) @ tasks s ! Suc k # drop (Suc (Suc k)) (tasks s) = tasks s"
      by (metis append_take_drop_id)
    with scan_finds [of s "take (Suc k) (tasks s)" "[]"] z d no True assms(4) show ?thesis
      by (simp add: live_def)
  next
    case False
    then have n: "?n = Suc k" using assms(2) by simp
    then obtain t ts where t: "tasks s = t # ts" by (cases "tasks s") auto
    have "zip_at s [] (t # ts)" using zip_at_wrap z n t by simp
    with scan_finds [of s "[]" "[]" t ts] no n t assms(4) show ?thesis by (simp add: live_def)
  qed
  then show ?thesis using assms(2) by (auto simp: get_next_task_def)
qed

lemma quantum_rotates:
  assumes rot: "rotating s k" and "length cs = 20"
  shows "\<exists>s'. run_ticks oc cs s = Some (Inr s') \<and> rotating s' (Suc k mod length (tasks s)) \<and>
    map pid (tasks s') = map pid (tasks s)"
proof -
  let ?n = "length (tasks s)" and ?k = "Suc k mod length (tasks s)"
  obtain ds c where cs: "cs = ds @ [c]" "length ds = 19"
    using assms(2) by (cases cs rule: rev_exhaust) auto
  have r: "is_enabled s" "current_task_ticks s = 0" "?n < 2 ^ 63" "k < ?n" "unat (current_task s) = k"
    "\<forall>i < ?n. state (tasks s ! i) = (if i = k then RUNNING else READY)"
    using rot by (simp_all add: rotating_def)
  have ds: "run_ticks oc ds s = Some (Inr (s\<lparr>current_task_ticks := 19\<rparr>))"
    using r cs(2) ticks_count [of s ds oc] by simp
  let ?f = "process_update (\<lambda>_. snd (deactivate c (process ((tasks s ! k)\<lparr>state := READY\<rparr>))))"
  let ?s1 = "update_current (state_update (\<lambda>_. READY)) (s\<lparr>current_task_ticks := 20\<rparr>)"
  let ?s2 = "(update_current ?f ?s1)\<lparr>current_task_ticks := 0\<rparr>"
  let ?s3 = "?s2\<lparr>current_task := of_nat ?k\<rparr>"
  let ?s4 = "update_current (state_update (\<lambda>_. RUNNING)) ?s3"
  have k1: "?k < ?n" using r(4) by (intro mod_less_divisor) linarith
  then have "?k < 2 ^ 63" using r(3) by (rule less_trans)
  then have k: "?k < ?n" "unat (of_nat ?k :: usize) = ?k" using k1 unat_index by blast+
  have s2: "tasks ?s2 ! i = (if i = k then ?f ((tasks s ! i)\<lparr>state := READY\<rparr>) else tasks s ! i)" if "i < ?n" for i
    using that r(5) by (simp add: update_current_nth)
  have "get_next_task oc ?s2 = Some (Inr (of_nat ?k, ?s3))"
    using next_is_ready [of ?s2 k oc] r s2 [OF k1] k1 by simp
  then have "switch_to_next oc (update_current ?f ?s1) = Some (Inr (Run (process (tasks ?s3 ! ?k)), ?s4))"
    using k by (simp add: switch_to_next_def)
  moreover have "tick oc c (s\<lparr>current_task_ticks := 19\<rparr>) = switch_to_next oc (update_current ?f ?s1)"
    using r by (simp add: tick_def add_ck_def QUANTUM_def swap_tasks_def update_current_nth deactivate_def Let_def)
  ultimately have "run_ticks oc cs s = Some (Inr ?s4)"
    by (simp add: cs run_ticks_append ds)
  moreover have "rotating ?s4 ?k"
    using r k s2 by (auto simp: rotating_def update_current_nth)
  moreover have "map pid (tasks ?s4) = map pid (tasks s)"
    by (rule nth_equalityI) (use r(5) s2 k in \<open>auto simp: update_current_nth\<close>)
  ultimately show ?thesis by blast
qed

text \<open>C13: Round robin fairness: with n tasks of which none blocks or exits, after m quanta of 20 ticks
  the running task is the m-th after the one that was running, cyclically, every other task is
  ready, and no task is lost or reordered. In particular every task runs within n quanta.\<close>

theorem round_robin_fairness:
  assumes "rotating s k" and "length cs = 20 * m"
  shows "\<exists>s'. run_ticks oc cs s = Some (Inr s') \<and> rotating s' ((k + m) mod length (tasks s)) \<and>
    map pid (tasks s') = map pid (tasks s)"
  using assms(2)
proof (induction m arbitrary: cs)
  case 0
  then show ?case using assms(1) by (auto simp: rotating_def)
next
  case (Suc m)
  let ?ds = "take (20 * m) cs" and ?es = "drop (20 * m) cs"
  obtain s1 where s1: "run_ticks oc ?ds s = Some (Inr s1)" "rotating s1 ((k + m) mod length (tasks s))"
    "map pid (tasks s1) = map pid (tasks s)"
    using Suc.IH [of ?ds] Suc.prems by auto
  then have n: "length (tasks s1) = length (tasks s)" by (metis length_map)
  obtain s2 where s2: "run_ticks oc ?es s1 = Some (Inr s2)" "rotating s2 (Suc ((k + m) mod length (tasks s)) mod length (tasks s))"
    "map pid (tasks s2) = map pid (tasks s1)"
    using quantum_rotates [OF s1(2), of ?es oc] Suc.prems by (auto simp: n)
  have "run_ticks oc cs s = Some (Inr s2)"
    using run_ticks_append [of oc ?ds ?es s] s1(1) s2(1) by simp
  then show ?case
    using s2(2,3) s1(3) by (simp add: mod_Suc_eq)
qed

theorem round_robin_fairness_witness:
  "\<exists>s'. run_ticks True (replicate 60 example_cpu) (example_sched 0 1 [READY, RUNNING]) = Some (Inr s') \<and> rotating s' 0"
proof -
  let ?s = "example_sched 0 1 [READY, RUNNING]"
  have "rotating ?s 1" by (auto simp: rotating_def example_simps less_Suc_eq)
  from round_robin_fairness [OF this, of "replicate 60 example_cpu" 3 True]
  obtain s' where "run_ticks True (replicate 60 example_cpu) ?s = Some (Inr s')" "rotating s' ((1 + 3) mod length (tasks ?s))"
    by auto
  moreover have "(1 + 3) mod length (tasks ?s) = 0" by (simp add: example_simps numeral_2_eq_2 [symmetric])
  ultimately show ?thesis by auto
qed

section \<open>Exit\<close>

text \<open>When the current task exits and the task after it, cyclically, is ready, that task is resumed: it is
  marked running and made current, the exiting task is marked done, and no other task changes.\<close>

lemma exit_runs_next:
  assumes "length (tasks s) < 2 ^ 63" and "2 \<le> length (tasks s)" and "unat (current_task s) = k" and "k < length (tasks s)"
    and "state (tasks s ! (Suc k mod length (tasks s))) = READY"
  shows "\<exists>s'. end_current_task oc c s = Some (Inr (Run (process (tasks s ! (Suc k mod length (tasks s)))), s')) \<and>
    unat (current_task s') = Suc k mod length (tasks s) \<and> length (tasks s') = length (tasks s) \<and>
    (\<forall>i < length (tasks s). state (tasks s' ! i) =
       (if i = k then DONE else if i = Suc k mod length (tasks s) then RUNNING else state (tasks s ! i)) \<and>
       pid (tasks s' ! i) = pid (tasks s ! i))"
proof -
  let ?n = "length (tasks s)" let ?j = "Suc k mod ?n"
  let ?f = "process_update (\<lambda>_. snd (deactivate c (process ((tasks s ! k)\<lparr>state := DONE\<rparr>))))"
  let ?s1 = "update_current (state_update (\<lambda>_. DONE)) s"
  let ?s2 = "(update_current ?f ?s1)\<lparr>current_task_ticks := 0\<rparr>"
  let ?s4 = "update_current (state_update (\<lambda>_. RUNNING)) (?s2\<lparr>current_task := of_nat ?j\<rparr>)"
  have j: "?j < ?n" "?j \<noteq> k" using assms(2,4) by (auto simp: mod_Suc)
  have uj: "unat (of_nat ?j :: usize) = ?j" using j(1) assms(1) unat_index less_trans by blast
  have s2: "tasks ?s2 ! i = (if i = k then ?f ((tasks s ! i)\<lparr>state := DONE\<rparr>) else tasks s ! i)" if "i < ?n" for i
    using that assms(3) by (simp add: update_current_nth)
  have "get_next_task oc ?s2 = Some (Inr (of_nat ?j, ?s2\<lparr>current_task := of_nat ?j\<rparr>))"
    using next_is_ready [of ?s2 k oc] assms j s2 [OF j(1)] by simp
  then have "switch_to_next oc (update_current ?f ?s1) = Some (Inr (Run (process (tasks s ! ?j)), ?s4))"
    using j uj s2 [OF j(1)] by (simp add: switch_to_next_def)
  then have "end_current_task oc c s = Some (Inr (Run (process (tasks s ! ?j)), ?s4))"
    using assms(3,4) by (simp add: end_current_task_def swap_tasks_def update_current_nth deactivate_def Let_def)
  moreover have "state (tasks ?s4 ! i) = (if i = k then DONE else if i = ?j then RUNNING else state (tasks s ! i)) \<and>
       pid (tasks ?s4 ! i) = pid (tasks s ! i)" if "i < ?n" for i
    using that j s2 [OF that] uj assms(3) by (simp add: update_current_nth)
  ultimately show ?thesis using uj by auto
qed

end
