(* ===== verification/Vga_Text.thy ===== *)
theory Vga_Text
  imports Kernel_Prelude
begin

text \<open>
  \<^verbatim>\<open>src/display/vga_text.rs\<close>: the text screen. The buffer \<^verbatim>\<open>[[ScreenChar; 80]; 25]\<close> is a list of 25
  rows of 80 cells; \<^verbatim>\<open>row\<close> and \<^verbatim>\<open>col\<close> are the writer's cursor. Indexing the buffer out of range
  panics, so the operations that index with the cursor return a \<open>rust\<close> value.

  The abstract view is a terminal that keeps every line ever printed; the refinement lemmas show
  that the buffer always displays the end of that history.
\<close>

section \<open>Colours and cells\<close>

datatype Color =
    Black | Blue | Green | Cyan | Red | Magenta | Brown | LightGray
  | DarkGray | LightBlue | LightGreen | LightCyan | LightRed | Pink | Yellow | White

fun color_u8 :: "Color \<Rightarrow> u8" where
  "color_u8 Black = 0" | "color_u8 Blue = 1" | "color_u8 Green = 2" | "color_u8 Cyan = 3"
| "color_u8 Red = 4" | "color_u8 Magenta = 5" | "color_u8 Brown = 6" | "color_u8 LightGray = 7"
| "color_u8 DarkGray = 8" | "color_u8 LightBlue = 9" | "color_u8 LightGreen = 10"
| "color_u8 LightCyan = 11" | "color_u8 LightRed = 12" | "color_u8 Pink = 13"
| "color_u8 Yellow = 14" | "color_u8 White = 15"

type_synonym color_code = u8

definition color_code_new :: "Color \<Rightarrow> Color \<Rightarrow> bool \<Rightarrow> color_code" where
  "color_code_new foreground background blink =
     push_bit 4 (color_u8 background) OR color_u8 foreground OR push_bit 7 (if blink then 1 else 0)"

record screen_char =
  get_char :: u8
  get_color :: color_code

definition BUFFER_WIDTH :: nat where
  "BUFFER_WIDTH = 80"

definition BUFFER_HEIGHT :: nat where
  "BUFFER_HEIGHT = 25"

section \<open>The writer\<close>

record writer =
  row :: nat
  col :: nat
  default_color :: color_code
  chars :: "screen_char list list"

text \<open>\<open>vga\<close> is what the memory at \<^verbatim>\<open>0xb8000\<close> holds; \<^verbatim>\<open>Writer::new\<close> does not clear it.\<close>

definition writer_new :: "screen_char list list \<Rightarrow> writer" where
  "writer_new vga =
     \<lparr>row = 0, col = 0, default_color = color_code_new White Black False, chars = vga\<rparr>"

definition put_char :: "nat \<Rightarrow> nat \<Rightarrow> screen_char \<Rightarrow> screen_char list list \<Rightarrow> screen_char list list" where
  "put_char r c x b = b[r := (b ! r)[c := x]]"

definition clear_row :: "nat \<Rightarrow> writer \<Rightarrow> writer" where
  "clear_row r w =
     (let empty = \<lparr>get_char = 0x20, get_color = default_color w\<rparr>
      in w\<lparr>chars := fold (\<lambda>c b. put_char r c empty b) [0 ..< BUFFER_WIDTH] (chars w)\<rparr>)"

definition clear_screen :: "writer \<Rightarrow> writer" where
  "clear_screen w = fold clear_row [0 ..< BUFFER_HEIGHT] w"

definition scroll_up :: "screen_char list list \<Rightarrow> screen_char list list" where
  "scroll_up b0 =
     fold (\<lambda>r b. fold (\<lambda>c b. put_char (r - 1) c (b ! r ! c) b) [0 ..< BUFFER_WIDTH] b)
       [1 ..< BUFFER_HEIGHT] b0"

definition new_line :: "writer \<Rightarrow> writer" where
  "new_line w =
     (let w = w\<lparr>row := row w + 1, col := 0\<rparr>
      in if BUFFER_HEIGHT \<le> row w
         then clear_row (BUFFER_HEIGHT - 1) (w\<lparr>row := BUFFER_HEIGHT - 1, chars := scroll_up (chars w)\<rparr>)
         else w)"

definition write_byte :: "writer \<Rightarrow> u8 \<Rightarrow> writer rust" where
  "write_byte w byte =
     (if byte = 0x0A then Inr (new_line w)
      else
        (let character = \<lparr>get_char = byte, get_color = default_color w\<rparr>
         in bindE (index_ck (chars w) (row w)) (\<lambda>r.
            bindE (index_ck r (col w)) (\<lambda>_.
            let w = w\<lparr>chars := put_char (row w) (col w) character (chars w), col := col w + 1\<rparr>
            in Inr (if BUFFER_WIDTH \<le> col w then new_line w else w)))))"

definition printable :: "u8 \<Rightarrow> bool" where
  "printable b \<longleftrightarrow> 0x20 \<le> b \<and> b \<le> 0x7e"

definition sanitize :: "u8 \<Rightarrow> u8" where
  "sanitize b = (if printable b \<or> b = 0x0A then b else 0x3F)"

definition write_string :: "writer \<Rightarrow> u8 list \<Rightarrow> writer rust" where
  "write_string w s = foldE (\<lambda>byte w. write_byte w (sanitize byte)) s w"

definition set_color :: "color_code \<Rightarrow> writer \<Rightarrow> writer" where
  "set_color color w = w\<lparr>default_color := color\<rparr>"

text \<open>\<^verbatim>\<open>write_fmt\<close> passes the pieces of the formatted text to \<^verbatim>\<open>write_str\<close> one after the other.\<close>

definition write_str :: "writer \<Rightarrow> u8 list \<Rightarrow> writer rust" where
  "write_str w s = write_string w s"

definition vga_print :: "u8 list list \<Rightarrow> writer \<Rightarrow> writer rust" where
  "vga_print pieces w = foldE (\<lambda>s w. write_str w s) pieces w"

section \<open>The loops in closed form\<close>

definition screen_dims :: "'a list list \<Rightarrow> bool" where
  "screen_dims b \<longleftrightarrow> length b = 25 \<and> (\<forall>r \<in> set b. length r = 80)"

lemma screen_dims_nth: "screen_dims b \<Longrightarrow> i < 25 \<Longrightarrow> length (b ! i) = 80"
  by (simp add: screen_dims_def)

lemma screen_dims_update: "screen_dims b \<Longrightarrow> length r = 80 \<Longrightarrow> screen_dims (b[i := r])"
  by (auto simp: screen_dims_def dest!: set_update_subset_insert [THEN subsetD])

lemma fold_put_row:
  assumes "r < length b" and "length xs \<le> length (b ! r)" and "\<And>c. c < length xs \<Longrightarrow> f c = xs ! c"
  shows "fold (\<lambda>c b. put_char r c (f c) b) [0 ..< length xs] b = b[r := xs @ drop (length xs) (b ! r)]"
  using assms(2,3)
proof (induction xs rule: rev_induct)
  case Nil
  then show ?case by simp
next
  case (snoc x xs)
  have "fold (\<lambda>c b. put_char r c (f c) b) [0 ..< length xs] b = b[r := xs @ drop (length xs) (b ! r)]"
    using snoc.prems by (intro snoc.IH) (auto simp: nth_append dest: less_SucI)
  moreover have "f (length xs) = x"
    using snoc.prems(2) [of "length xs"] by simp
  moreover have "drop (length xs) (b ! r) = (b ! r ! length xs) # drop (Suc (length xs)) (b ! r)"
    using snoc.prems(1) by (simp add: Cons_nth_drop_Suc)
  ultimately show ?case
    using assms(1) by (simp add: put_char_def list_update_append)
qed

lemma clear_row_chars:
  assumes "screen_dims (chars w)" and "r < 25"
  shows "clear_row r w =
    w\<lparr>chars := (chars w)[r := replicate 80 \<lparr>get_char = 0x20, get_color = default_color w\<rparr>]\<rparr>"
proof -
  let ?e = "\<lparr>get_char = 0x20, get_color = default_color w\<rparr>"
  have "fold (\<lambda>c b. put_char r c ?e b) [0 ..< length (replicate 80 ?e)] (chars w) =
      (chars w)[r := replicate 80 ?e @ drop (length (replicate 80 ?e)) (chars w ! r)]"
    using assms by (intro fold_put_row) (simp_all add: screen_dims_def)
  then show ?thesis
    using assms by (simp add: clear_row_def BUFFER_WIDTH_def Let_def screen_dims_nth)
qed

text \<open>One round of the scroll loop copies a row onto the row above it.\<close>

lemma scroll_row:
  assumes "screen_dims b" and "0 < r" and "r < 25"
  shows "fold (\<lambda>c b. put_char (r - 1) c (b ! r ! c) b) [0 ..< 80] b = b[r - 1 := b ! r]"
proof -
  have "n \<le> 80 \<Longrightarrow> fold (\<lambda>c b. put_char (r - 1) c (b ! r ! c) b) [0 ..< n] b =
      b[r - 1 := take n (b ! r) @ drop n (b ! (r - 1))]" for n
  proof (induction n)
    case 0
    then show ?case by simp
  next
    case (Suc n)
    let ?m = "take n (b ! r) @ drop n (b ! (r - 1))"
    have len: "length (b ! r) = 80" "length (b ! (r - 1)) = 80" "length b = 25"
      using assms by (auto simp: screen_dims_def)
    have "put_char (r - 1) n ((b[r - 1 := ?m]) ! r ! n) (b[r - 1 := ?m]) = b[r - 1 := ?m[n := b ! r ! n]]"
      using assms len by (simp add: put_char_def nth_list_update)
    also have "?m[n := b ! r ! n] = take (Suc n) (b ! r) @ drop (Suc n) (b ! (r - 1))"
      using Suc.prems len by (simp add: list_update_append take_Suc_conv_app_nth Cons_nth_drop_Suc [symmetric])
    finally show ?case
      using Suc by simp
  qed
  from this [of 80] show ?thesis
    using assms by (simp add: screen_dims_nth)
qed

lemma scroll_up_eq:
  assumes "screen_dims b"
  shows "scroll_up b = tl b @ [last b]"
proof -
  have "n \<le> 24 \<Longrightarrow> fold (\<lambda>r b. fold (\<lambda>c b. put_char (r - 1) c (b ! r ! c) b) [0 ..< 80] b) [1 ..< Suc n] b =
      take n (tl b) @ drop n b" for n
  proof (induction n)
    case 0
    then show ?case by simp
  next
    case (Suc n)
    let ?m = "take n (tl b) @ drop n b"
    have len: "length b = 25" using assms by (simp add: screen_dims_def)
    have dims: "screen_dims ?m"
    proof -
      have "set ?m \<subseteq> set b"
        using set_take_subset [of n "tl b"] set_drop_subset [of n b] by (cases b) auto
      then show ?thesis
        using assms Suc.prems by (auto simp: screen_dims_def)
    qed
    have "fold (\<lambda>c b. put_char (Suc n - 1) c (b ! Suc n ! c) b) [0 ..< 80] ?m = ?m[n := ?m ! Suc n]"
      using scroll_row [OF dims, of "Suc n"] Suc.prems by simp
    also have "\<dots> = take (Suc n) (tl b) @ drop (Suc n) b"
    proof -
      have n: "n < length b" "Suc n < length b" using len Suc.prems by auto
      have "drop n b = b ! n # drop (Suc n) b" using n by (simp add: Cons_nth_drop_Suc)
      moreover have "take (Suc n) (tl b) = take n (tl b) @ [b ! Suc n]"
        using n by (simp add: take_Suc_conv_app_nth nth_tl)
      ultimately show ?thesis
        using n by (simp add: list_update_append nth_append)
    qed
    finally show ?case
      using Suc by simp
  qed
  from this [of 24] have "scroll_up b = take 24 (tl b) @ drop 24 b"
    by (simp add: scroll_up_def BUFFER_WIDTH_def BUFFER_HEIGHT_def)
  moreover have "length b = 25" using assms by (simp add: screen_dims_def)
  then have "drop 24 b = [last b]" and "take 24 (tl b) = tl b"
    by (auto simp: list_eq_iff_nth_eq last_conv_nth)
  ultimately show ?thesis by simp
qed

lemma new_line_chars:
  assumes "screen_dims (chars w)"
  shows "new_line w =
    (if 24 \<le> row w
     then w\<lparr>row := 24, col := 0,
            chars := tl (chars w) @ [replicate 80 \<lparr>get_char = 0x20, get_color = default_color w\<rparr>]\<rparr>
     else w\<lparr>row := row w + 1, col := 0\<rparr>)"
proof (cases "24 \<le> row w")
  case True
  let ?b = "tl (chars w) @ [last (chars w)]"
  have len: "length (chars w) = 25" using assms by (simp add: screen_dims_def)
  have "screen_dims ?b"
    using assms by (cases "chars w") (auto simp: screen_dims_def)
  then have "clear_row 24 (w\<lparr>col := 0, row := 24, chars := ?b\<rparr>) =
      w\<lparr>row := 24, col := 0, chars := ?b[24 := replicate 80 \<lparr>get_char = 0x20, get_color = default_color w\<rparr>]\<rparr>"
    by (simp add: clear_row_chars)
  moreover have "?b[24 := x] = tl (chars w) @ [x]" for x
    using len by (simp add: list_update_append)
  ultimately show ?thesis
    using True assms by (simp add: new_line_def BUFFER_HEIGHT_def scroll_up_eq Let_def)
qed (simp add: new_line_def BUFFER_HEIGHT_def)

section \<open>The terminal the screen displays\<close>

text \<open>
  The history is the list of all lines printed so far, the last one being the current line. A line
  break, or the 80th character of a line, opens a new one.
\<close>

definition term_byte :: "color_code \<Rightarrow> screen_char list list \<Rightarrow> u8 \<Rightarrow> screen_char list list" where
  "term_byte color hist b =
     (if b = 0x0A then hist @ [[]]
      else (let line = last hist @ [\<lparr>get_char = b, get_color = color\<rparr>]
            in butlast hist @ [line] @ (if length line = 80 then [[]] else [])))"

definition term_string :: "color_code \<Rightarrow> screen_char list list \<Rightarrow> u8 list \<Rightarrow> screen_char list list" where
  "term_string color hist s = foldl (\<lambda>h b. term_byte color h (sanitize b)) hist s"

text \<open>
  The screen shows a history when its cursor stands at the end of the current line, which is on the
  last row once the history has 25 lines or more, and every line that fits is displayed, in order,
  from its first column on.
\<close>

definition displays :: "writer \<Rightarrow> screen_char list list \<Rightarrow> bool" where
  "displays w hist \<longleftrightarrow>
     hist \<noteq> [] \<and> (\<forall>l \<in> set hist. length l \<le> 80) \<and>
     screen_dims (chars w) \<and> row w = min (length hist - 1) 24 \<and> col w = length (last hist) \<and>
     (\<forall>i \<le> row w. \<exists>pad. chars w ! i = hist ! (length hist - 1 - row w + i) @ pad)"

lemma displaysD:
  assumes "displays w hist"
  shows "hist \<noteq> []" and "\<forall>l \<in> set hist. length l \<le> 80" and "screen_dims (chars w)"
    and "row w = min (length hist - 1) 24" and "col w = length (last hist)"
    and "i \<le> row w \<Longrightarrow> \<exists>pad. chars w ! i = hist ! (length hist - 1 - row w + i) @ pad"
  using assms unfolding displays_def by blast+

lemma displays_new_line:
  assumes s: "displays w hist"
  shows "displays (new_line w) (hist @ [[]])"
proof -
  have dims: "screen_dims (chars w)" and len: "length (chars w) = 25"
    using s by (auto simp: displays_def screen_dims_def)
  have ne: "hist \<noteq> []" and r: "row w = min (length hist - 1) 24"
    and vis: "\<forall>i \<le> row w. \<exists>pad. chars w ! i = hist ! (length hist - 1 - row w + i) @ pad"
    using displaysD [OF s] by blast+
  show ?thesis
  proof (cases "24 \<le> row w")
    case True
    then have rw: "row w = 24" and big: "25 \<le> length hist" using r ne by (auto simp: min_def split: if_splits)
    let ?e = "replicate 80 \<lparr>get_char = 0x20, get_color = default_color w\<rparr>"
    let ?w = "w\<lparr>row := 24, col := 0, chars := tl (chars w) @ [?e]\<rparr>"
    have "screen_dims (tl (chars w) @ [?e])"
      using dims by (cases "chars w") (auto simp: screen_dims_def)
    moreover have "\<exists>pad. (tl (chars w) @ [?e]) ! i = (hist @ [[]]) ! (length hist - 24 + i) @ pad" if "i \<le> 24" for i
    proof (cases "i = 24")
      case True
      then show ?thesis using len big by (simp add: nth_append)
    next
      case False
      with that have "i < 24" by simp
      moreover obtain pad where "chars w ! Suc i = hist ! (length hist - 1 - 24 + Suc i) @ pad"
        using vis rw \<open>i < 24\<close> by (metis Suc_leI)
      moreover have "length hist - 1 - 24 + Suc i = length hist - 24 + i"
        using big by simp
      ultimately show ?thesis
        using len big by (simp add: nth_append nth_tl)
    qed
    ultimately have "displays ?w (hist @ [[]])"
      using s big by (auto simp: displays_def min_def)
    then show ?thesis using True by (simp add: new_line_chars [OF dims])
  next
    case False
    then have rw: "row w = length hist - 1" "length hist < 25" using r ne by (auto simp: min_def split: if_splits)
    have "\<exists>pad. chars w ! i = (hist @ [[]]) ! i @ pad" if "i \<le> length hist" for i
      using that vis rw ne by (cases "i = length hist") (auto simp: nth_append)
    then have "displays (w\<lparr>row := row w + 1, col := 0\<rparr>) (hist @ [[]])"
      using s rw ne by (auto simp: displays_def min_def)
    then show ?thesis using False by (simp add: new_line_chars [OF dims])
  qed
qed

lemma displays_current:
  assumes "displays w hist"
  shows "row w < 25" and "row w < length (chars w)" and "\<exists>pad. chars w ! row w = last hist @ pad"
proof -
  have r: "row w = min (length hist - 1) 24" and ne: "hist \<noteq> []"
    using displaysD [OF assms] by blast+
  moreover have "length (chars w) = 25"
    using displaysD(3) [OF assms] by (simp add: screen_dims_def)
  ultimately show "row w < 25" and "row w < length (chars w)" by auto
  have "length hist - 1 - row w + row w = length hist - 1"
    using r by simp
  then show "\<exists>pad. chars w ! row w = last hist @ pad"
    using displaysD(6) [OF assms order_refl] by (simp add: last_conv_nth [OF ne])
qed

lemma displays_put:
  assumes s: "displays w hist" and len: "length (last hist) < 80"
  shows "displays (w\<lparr>chars := put_char (row w) (col w) x (chars w), col := col w + 1\<rparr>) (butlast hist @ [last hist @ [x]])"
proof -
  have ne: "hist \<noteq> []" and dims: "screen_dims (chars w)" and c: "col w = length (last hist)"
    and vis: "\<forall>i \<le> row w. \<exists>pad. chars w ! i = hist ! (length hist - 1 - row w + i) @ pad"
    and r: "row w = min (length hist - 1) 24"
    using displaysD [OF s] by blast+
  let ?hist = "butlast hist @ [last hist @ [x]]"
  obtain pad where pad: "chars w ! row w = last hist @ pad" and "length (last hist @ pad) = 80"
    using displays_current [OF s] screen_dims_nth [OF dims] by metis
  then obtain y ys where "pad = y # ys"
    using len by (cases pad) auto
  then have line: "(chars w ! row w)[col w := x] = (last hist @ [x]) @ ys"
    by (simp add: pad c list_update_append)
  have lenh: "length ?hist = length hist" using ne by (simp add: Suc_diff_1)
  have "\<exists>pad. put_char (row w) (col w) x (chars w) ! i = ?hist ! (length hist - 1 - row w + i) @ pad" if i: "i \<le> row w" for i
  proof (cases "i = row w")
    case True
    moreover have "length hist - 1 - row w + row w = length (butlast hist)"
      using r by simp
    ultimately show ?thesis
      using line displays_current(2) [OF s] by (simp add: put_char_def nth_append)
  next
    case False
    then have "length hist - 1 - row w + i < length (butlast hist)"
      using i r by auto
    moreover obtain pad where "chars w ! i = hist ! (length hist - 1 - row w + i) @ pad"
      using vis i by blast
    ultimately show ?thesis
      using False by (auto simp: put_char_def nth_append nth_butlast)
  qed
  moreover have "screen_dims (put_char (row w) (col w) x (chars w))"
    unfolding put_char_def using dims displays_current(1) [OF s]
    by (intro screen_dims_update) (simp_all add: screen_dims_nth)
  moreover have "\<forall>l \<in> set ?hist. length l \<le> 80"
    using s len by (auto simp: displays_def dest: in_set_butlastD)
  ultimately show ?thesis
    using r c lenh by (simp add: displays_def)
qed

lemma write_byte_char:
  assumes "displays w hist" and "length (last hist) < 80" and "b \<noteq> 0x0A"
  shows "write_byte w b =
    (let w' = w\<lparr>chars := put_char (row w) (col w) \<lparr>get_char = b, get_color = default_color w\<rparr> (chars w), col := col w + 1\<rparr>
     in Inr (if 80 \<le> col w' then new_line w' else w'))"
  using assms displays_current(1,2) [OF assms(1)] screen_dims_nth [of "chars w" "row w"]
  by (simp add: write_byte_def displays_def index_ck_def BUFFER_WIDTH_def)

lemma new_line_color: "screen_dims (chars w) \<Longrightarrow> default_color (new_line w) = default_color w"
  by (simp add: new_line_chars)

text \<open>One byte: the writer never indexes out of range and the screen follows the terminal.\<close>

lemma write_byte_displays:
  assumes s: "displays w hist" and len: "length (last hist) < 80"
  shows "\<exists>w'. write_byte w b = Inr w' \<and> default_color w' = default_color w \<and>
    displays w' (term_byte (default_color w) hist b) \<and> length (last (term_byte (default_color w) hist b)) < 80"
proof (cases "b = 0x0A")
  case True
  have "screen_dims (chars w)" using s by (simp add: displays_def)
  with True show ?thesis
    using displays_new_line [OF s] by (simp add: write_byte_def term_byte_def new_line_color)
next
  case False
  let ?x = "\<lparr>get_char = b, get_color = default_color w\<rparr>"
  let ?w = "w\<lparr>chars := put_char (row w) (col w) ?x (chars w), col := col w + 1\<rparr>"
  let ?h = "butlast hist @ [last hist @ [?x]]"
  have d: "displays ?w ?h" by (rule displays_put [OF s len])
  have c: "col w = length (last hist)" by (rule displaysD(5) [OF s])
  have wb: "write_byte w b = Inr (if 80 \<le> col w + 1 then new_line ?w else ?w)"
    using write_byte_char [OF s len False] by (simp add: Let_def)
  show ?thesis
  proof (cases "length (last hist) + 1 = 80")
    case True
    then have "term_byte (default_color w) hist b = ?h @ [[]]"
      using False by (simp add: term_byte_def Let_def)
    moreover have "default_color (new_line ?w) = default_color w"
      using new_line_color [OF displaysD(3) [OF d]] by simp
    ultimately show ?thesis
      using wb c True displays_new_line [OF d] by simp
  next
    case notfull: False
    then have "term_byte (default_color w) hist b = ?h"
      using False by (simp add: term_byte_def Let_def)
    with wb c notfull d len show ?thesis by simp
  qed
qed

lemma write_string_displays:
  assumes "displays w hist" and "length (last hist) < 80"
  shows "\<exists>w'. write_string w s = Inr w' \<and> default_color w' = default_color w \<and>
    displays w' (term_string (default_color w) hist s) \<and> length (last (term_string (default_color w) hist s)) < 80"
  using assms
proof (induction s arbitrary: w hist)
  case Nil
  then show ?case by (simp add: write_string_def term_string_def)
next
  case (Cons b s)
  obtain w1 where w1: "write_byte w (sanitize b) = Inr w1" "default_color w1 = default_color w"
    "displays w1 (term_byte (default_color w) hist (sanitize b))"
    "length (last (term_byte (default_color w) hist (sanitize b))) < 80"
    using write_byte_displays [OF Cons.prems] by blast
  from Cons.IH [OF w1(3,4)] w1(1,2) show ?case
    by (simp add: write_string_def term_string_def)
qed

lemma vga_print_continues:
  assumes "displays w hist" and "length (last hist) < 80"
  shows "\<exists>w'. vga_print pieces w = Inr w' \<and> default_color w' = default_color w \<and>
    displays w' (term_string (default_color w) hist (concat pieces)) \<and> length (last (term_string (default_color w) hist (concat pieces))) < 80"
  using assms
proof (induction pieces arbitrary: w hist)
  case Nil
  then show ?case by (simp add: vga_print_def term_string_def)
next
  case (Cons s pieces)
  obtain w1 where w1: "write_string w s = Inr w1" "default_color w1 = default_color w"
    "displays w1 (term_string (default_color w) hist s)"
    "length (last (term_string (default_color w) hist s)) < 80"
    using write_string_displays [OF Cons.prems] by blast
  from Cons.IH [OF w1(3,4)] w1(1,2) show ?case
    by (simp add: vga_print_def write_str_def term_string_def)
qed

lemma term_string_append: "term_string color hist (s @ s') = term_string color (term_string color hist s) s'"
  by (simp add: term_string_def)

text \<open>
  The contract that \<^verbatim>\<open>print!\<close> gives its callers: printing on a sink that shows a text returns, and the sink then shows
  the text with the pieces appended.
\<close>

locale text_sink =
  fixes print_text :: "u8 list list \<Rightarrow> 'w \<Rightarrow> 'w rust" and shown :: "'w \<Rightarrow> 't \<Rightarrow> bool" and extend :: "'t \<Rightarrow> u8 list \<Rightarrow> 't"
  assumes print_shown: "shown w t \<Longrightarrow> \<exists>w'. print_text pieces w = Inr w' \<and> shown w' (extend t (concat pieces))"
    and extend_append: "extend t (s @ s') = extend (extend t s) s'"
    and extend_Nil: "extend t [] = t"
begin

lemma print_then:
  assumes "shown w t"
  shows "\<exists>w'. bindE (print_text pieces w) k = k w' \<and> shown w' (extend t (concat pieces))"
  using print_shown [OF assms, of pieces] by auto

lemma print_each:
  assumes "shown w t"
  shows "\<exists>w'. foldE (\<lambda>s. print_text [s]) ss w = Inr w' \<and> shown w' (extend t (concat ss))"
  using assms
proof (induction ss arbitrary: w t)
  case (Cons s ss)
  obtain w1 where "print_text [s] w = Inr w1" "shown w1 (extend t s)" using print_shown [OF Cons.prems, of "[s]"] by auto
  then show ?case using Cons.IH [of w1 "extend t s"] by (simp add: extend_append)
qed (simp add: extend_Nil)

end

definition shows_text :: "writer \<Rightarrow> color_code \<times> screen_char list list \<Rightarrow> bool" where
  "shows_text w t \<longleftrightarrow> default_color w = fst t \<and> displays w (snd t) \<and> length (last (snd t)) < 80"

interpretation vga: text_sink vga_print shows_text "\<lambda>t s. (fst t, term_string (fst t) (snd t) s)"
proof unfold_locales
  fix w t pieces
  assume "shows_text w t"
  then show "\<exists>w'. vga_print pieces w = Inr w' \<and> shows_text w' (fst t, term_string (fst t) (snd t) (concat pieces))"
    using vga_print_continues [of w "snd t" pieces] by (auto simp: shows_text_def)
qed (simp_all add: term_string_append, simp add: term_string_def)

lemma vga_print_displays:
  assumes "displays w hist" and "length (last hist) < 80"
  shows "\<exists>w'. vga_print pieces w = Inr w' \<and> displays w' (term_string (default_color w) hist (concat pieces))"
  using vga.print_shown [of w "(default_color w, hist)" pieces] assms by (auto simp: shows_text_def)

lemma writer_new_displays: "screen_dims vga \<Longrightarrow> displays (writer_new vga) [[]]"
  by (simp add: displays_def writer_new_def)



section \<open>What can appear on the screen\<close>

definition cells :: "writer \<Rightarrow> screen_char set" where
  "cells w = \<Union> (set ` set (chars w))"

definition writer_ok :: "writer \<Rightarrow> bool" where
  "writer_ok w \<longleftrightarrow> screen_dims (chars w) \<and> row w < 25 \<and> col w < 80"

definition printed_in :: "color_code \<Rightarrow> screen_char set" where
  "printed_in color = {c. printable (get_char c) \<and> get_color c = color}"

lemma put_char_cells:
  assumes "r < length b"
  shows "\<Union> (set ` set (put_char r c x b)) \<subseteq> insert x (\<Union> (set ` set b))"
  unfolding put_char_def using assms
  by (auto dest!: set_update_subset_insert [THEN subsetD] intro: nth_mem)

lemma new_line_ok:
  assumes "screen_dims (chars w)" and "row w < 25"
  shows "writer_ok (new_line w)" and "default_color (new_line w) = default_color w"
    and "cells (new_line w) \<subseteq> cells w \<union> printed_in (default_color w)"
  using assms
  by (cases "chars w"; auto simp: new_line_chars writer_ok_def screen_dims_def cells_def printed_in_def printable_def)+

lemma write_byte_ok:
  assumes w: "writer_ok w" and b: "printable b \<or> b = 0x0A"
  shows "\<exists>w'. write_byte w b = Inr w' \<and> writer_ok w' \<and> default_color w' = default_color w \<and>
    cells w' \<subseteq> cells w \<union> printed_in (default_color w)"
proof (cases "b = 0x0A")
  case True
  then show ?thesis using w new_line_ok [of w] by (auto simp: write_byte_def writer_ok_def)
next
  case False
  let ?x = "\<lparr>get_char = b, get_color = default_color w\<rparr>"
  let ?w = "w\<lparr>chars := put_char (row w) (col w) ?x (chars w), col := col w + 1\<rparr>"
  have dims: "screen_dims (chars w)" and r: "row w < 25" "col w < 80" "length (chars w) = 25"
    using w by (auto simp: writer_ok_def screen_dims_def)
  have wb: "write_byte w b = Inr (if 80 \<le> col w + 1 then new_line ?w else ?w)"
    using False r screen_dims_nth [OF dims r(1)] by (simp add: write_byte_def index_ck_def BUFFER_WIDTH_def)
  have dims': "screen_dims (chars ?w)"
    using dims r(1) by (simp add: put_char_def screen_dims_update screen_dims_nth)
  have "cells ?w \<subseteq> insert ?x (cells w)"
    using put_char_cells [of "row w" "chars w"] r by (simp add: cells_def)
  moreover have "?x \<in> printed_in (default_color w)"
    using b False by (simp add: printed_in_def)
  ultimately have c: "cells ?w \<subseteq> cells w \<union> printed_in (default_color w)" by blast
  show ?thesis
  proof (cases "80 \<le> col w + 1")
    case True
    then show ?thesis using wb new_line_ok [OF dims'] c r by auto
  next
    case False
    then show ?thesis using wb dims' c r by (simp add: writer_ok_def)
  qed
qed

text \<open>C21: The writer stays well formed. Whatever bytes a string has, writing it succeeds, the buffer keeps its 25 rows of 80
  cells with the cursor inside, and the screen gains only printable ASCII
  characters in the writer's colour: bytes outside 0x20 to 0x7e other than the line feed never reach
  the buffer.\<close>

theorem write_string_only_printable:
  assumes "writer_ok w"
  shows "\<exists>w'. write_string w s = Inr w' \<and> writer_ok w' \<and> cells w' \<subseteq> cells w \<union> printed_in (default_color w)"
proof -
  have "\<exists>w'. write_string w s = Inr w' \<and> writer_ok w' \<and> default_color w' = default_color w \<and>
    cells w' \<subseteq> cells w \<union> printed_in (default_color w)"
    using assms
  proof (induction s arbitrary: w)
    case Nil
    then show ?case by (simp add: write_string_def)
  next
    case (Cons b s)
    have "printable (sanitize b) \<or> sanitize b = 0x0A" by (simp add: sanitize_def printable_def)
    then obtain w1 where w1: "write_byte w (sanitize b) = Inr w1" "writer_ok w1" "default_color w1 = default_color w"
      "cells w1 \<subseteq> cells w \<union> printed_in (default_color w)"
      using write_byte_ok [OF Cons.prems] by blast
    from Cons.IH [OF w1(2)] w1(1,3,4) show ?case
      by (auto simp: write_string_def)
  qed
  then show ?thesis by blast
qed

theorem write_string_only_printable_witness:
  "\<exists>w'. write_string (writer_new (replicate 25 (replicate 80 \<lparr>get_char = 0x20, get_color = 15\<rparr>))) [0x07, 0x41] = Inr w' \<and>
    (\<forall>c \<in> cells w'. printable (get_char c))"
proof -
  let ?w = "writer_new (replicate 25 (replicate 80 \<lparr>get_char = 0x20, get_color = 15\<rparr>))"
  have "writer_ok ?w" by (simp add: writer_ok_def writer_new_def screen_dims_def)
  moreover have "\<forall>c \<in> cells ?w. printable (get_char c)"
    by (simp add: cells_def writer_new_def printable_def)
  ultimately show ?thesis
    using write_string_only_printable [of ?w "[0x07, 0x41]"] by (fastforce simp: printed_in_def)
qed

text \<open>The attribute byte of \<^verbatim>\<open>ColorCode::new\<close>: the low nibble is the foreground, bits 4 to 6 are the low
  three bits of the background, and the blink bit is set exactly when blinking was asked for or the
  background is one of the eight bright colours, which the attribute byte cannot express.\<close>

theorem color_code_decode:
  "color_code_new fg bg blink AND 0x0F = color_u8 fg \<and>
   drop_bit 4 (color_code_new fg bg blink) AND 7 = color_u8 bg AND 7 \<and>
   (bit (color_code_new fg bg blink) 7 \<longleftrightarrow> blink \<or> 8 \<le> color_u8 bg)"
  by (cases fg; cases bg; cases blink; simp add: color_code_new_def word_le_nat_alt)

end
