(* ===== verification/Utf8.thy ===== *)
theory Utf8
  imports Kernel_Prelude
begin

text \<open>
  Byte strings as the kernel reads them: \<^verbatim>\<open>core::str::from_utf8\<close>, used on user buffers, table signatures
  and file names, and proved to accept exactly the encodings of sequences of Unicode scalar values;
  and the packed structures it finds by reinterpreting an address.
\<close>

section \<open>UTF-8\<close>

text \<open>\<^verbatim>\<open>core::str::from_utf8\<close>: the well-formed byte sequences of the Unicode standard, table 3-7.\<close>

definition cont :: "u8 \<Rightarrow> bool" where
  "cont b \<longleftrightarrow> 0x80 \<le> b \<and> b \<le> 0xBF"

fun utf8_ok :: "u8 list \<Rightarrow> bool" where
  "utf8_ok [] = True"
| "utf8_ok (b # bs) =
     (if b < 0x80 then utf8_ok bs
      else if 0xC2 \<le> b \<and> b \<le> 0xDF then
        (case bs of c # bs' \<Rightarrow> cont c \<and> utf8_ok bs' | _ \<Rightarrow> False)
      else if 0xE0 \<le> b \<and> b \<le> 0xEF then
        (case bs of c # d # bs' \<Rightarrow>
           cont c \<and> (b = 0xE0 \<longrightarrow> 0xA0 \<le> c) \<and> (b = 0xED \<longrightarrow> c \<le> 0x9F) \<and> cont d \<and> utf8_ok bs'
         | _ \<Rightarrow> False)
      else if 0xF0 \<le> b \<and> b \<le> 0xF4 then
        (case bs of c # d # e # bs' \<Rightarrow>
           cont c \<and> (b = 0xF0 \<longrightarrow> 0x90 \<le> c) \<and> (b = 0xF4 \<longrightarrow> c \<le> 0x8F) \<and> cont d \<and> cont e \<and> utf8_ok bs'
         | _ \<Rightarrow> False)
      else False)"

text \<open>Unicode scalar values and their encoding.\<close>

definition scalar :: "nat \<Rightarrow> bool" where
  "scalar n \<longleftrightarrow> n < 0xD800 \<or> 0xE000 \<le> n \<and> n < 0x110000"

definition encode_utf8 :: "nat \<Rightarrow> u8 list" where
  "encode_utf8 n =
     (if n < 0x80 then [of_nat n]
      else if n < 0x800 then [of_nat (0xC0 + n div 64), of_nat (0x80 + n mod 64)]
      else if n < 0x10000 then
        [of_nat (0xE0 + n div 4096), of_nat (0x80 + n div 64 mod 64), of_nat (0x80 + n mod 64)]
      else [of_nat (0xF0 + n div 262144), of_nat (0x80 + n div 4096 mod 64), of_nat (0x80 + n div 64 mod 64),
            of_nat (0x80 + n mod 64)])"

lemma unat_byte: "n < 256 \<Longrightarrow> unat (of_nat n :: u8) = n"
  by (simp add: unat_of_nat_small)

lemmas byte_order = word_less_nat_alt word_le_nat_alt word_unat_eq_iff

text \<open>Byte sequences by their payloads: \<open>q\<close>, \<open>r\<close>, \<open>t\<close> and \<open>u\<close> are the bits of the successive bytes.\<close>

lemma cont_iff: "cont c \<longleftrightarrow> (\<exists>t < 64. unat c = 0x80 + t)"
  by (auto simp: cont_def byte_order intro: exI [of _ "unat c - 0x80"])

lemma utf8_two:
  assumes "unat b = 0xC0 + q" and "q < 32"
  shows "utf8_ok (b # bs) \<longleftrightarrow> 2 \<le> q \<and> (\<exists>c bs'. bs = c # bs' \<and> cont c \<and> utf8_ok bs')"
  using assms by (cases bs) (simp_all add: word_less_nat_alt word_le_nat_alt)

lemma utf8_three:
  assumes "unat b = 0xE0 + q" and "q < 16"
  shows "utf8_ok (b # bs) \<longleftrightarrow> (\<exists>c d bs'. bs = c # d # bs' \<and> cont c \<and> (q = 0 \<longrightarrow> 0xA0 \<le> unat c) \<and>
    (q = 13 \<longrightarrow> unat c \<le> 0x9F) \<and> cont d \<and> utf8_ok bs')"
proof -
  have "b = 0xE0 \<longleftrightarrow> q = 0" "b = 0xED \<longleftrightarrow> q = 13" using assms by (simp_all add: word_unat_eq_iff)
  with assms show ?thesis by (auto simp: word_less_nat_alt word_le_nat_alt split: list.splits)
qed

lemma utf8_four:
  assumes "unat b = 0xF0 + q"
  shows "utf8_ok (b # bs) \<longleftrightarrow> q \<le> 4 \<and> (\<exists>c d e bs'. bs = c # d # e # bs' \<and> cont c \<and> (q = 0 \<longrightarrow> 0x90 \<le> unat c) \<and>
    (q = 4 \<longrightarrow> unat c \<le> 0x8F) \<and> cont d \<and> cont e \<and> utf8_ok bs')"
proof -
  have "b = 0xF0 \<longleftrightarrow> q = 0" "b = 0xF4 \<longleftrightarrow> q = 4" using assms by (simp_all add: word_unat_eq_iff)
  with assms show ?thesis by (auto simp: word_less_nat_alt word_le_nat_alt split: list.splits)
qed

lemma digits_three: "(n :: nat) = 4096 * (n div 4096) + 64 * (n div 64 mod 64) + n mod 64"
proof -
  have "n = 64 * (n div 64) + n mod 64" and "n div 64 = 64 * (n div 64 div 64) + n div 64 mod 64" by simp_all
  moreover have "n div 64 div 64 = n div 4096" by (simp add: div_mult2_eq [symmetric])
  ultimately show ?thesis by linarith
qed

lemma digits_four: "(n :: nat) = 262144 * (n div 262144) + 4096 * (n div 4096 mod 64) + 64 * (n div 64 mod 64) + n mod 64"
proof -
  have "n div 4096 = 64 * (n div 4096 div 64) + n div 4096 mod 64" by simp
  moreover have "n div 4096 div 64 = n div 262144" by (simp add: div_mult2_eq [symmetric])
  ultimately show ?thesis using digits_three [of n] by linarith
qed

lemma utf8_ok_encode:
  assumes "scalar n"
  shows "utf8_ok (encode_utf8 n @ bs) = utf8_ok bs"
proof -
  have c: "cont (of_nat (0x80 + t))" "unat (of_nat (0x80 + t) :: u8) = 0x80 + t" if "t < 64" for t
    using that unat_byte [of "0x80 + t"] by (auto simp: cont_iff)
  consider "n < 0x80" | "0x80 \<le> n" "n < 0x800" | "0x800 \<le> n" "n < 0x10000" | "0x10000 \<le> n" by linarith
  then show ?thesis
  proof cases
    case 1
    then show ?thesis using unat_byte [of n] by (simp add: encode_utf8_def byte_order)
  next
    case 2
    define q t where "q = n div 64" and "t = n mod 64"
    have "2 \<le> q" "q < 32" "t < 64" using 2 unfolding q_def t_def by linarith+
    then show ?thesis
      using 2 utf8_two [OF unat_byte [of "0xC0 + q"]] c [of t]
      by (simp add: encode_utf8_def q_def [symmetric] t_def [symmetric] del: of_nat_add utf8_ok.simps)
  next
    case 3
    define q r t where "q = n div 4096" and "r = n div 64 mod 64" and "t = n mod 64"
    have n: "n = 4096 * q + 64 * r + t" unfolding q_def r_def t_def by (rule digits_three)
    have b: "r < 64" "t < 64" unfolding r_def t_def by simp_all
    then have "q < 16" using 3 n by linarith
    have "q = 0 \<longrightarrow> 32 \<le> r" "q = 13 \<longrightarrow> r \<le> 31"
      using n b 3 assms by (auto simp: scalar_def)
    then show ?thesis
      using 3 b \<open>q < 16\<close> utf8_three [OF unat_byte [of "0xE0 + q"]] c [of t] c [of r]
      by (simp add: encode_utf8_def q_def [symmetric] r_def [symmetric] t_def [symmetric] del: of_nat_add utf8_ok.simps)
  next
    case 4
    define q r t u where "q = n div 262144" and "r = n div 4096 mod 64" and "t = n div 64 mod 64" and "u = n mod 64"
    have n: "n = 262144 * q + 4096 * r + 64 * t + u" unfolding q_def r_def t_def u_def by (rule digits_four)
    have b: "r < 64" "t < 64" "u < 64" unfolding r_def t_def u_def by simp_all
    have "n < 0x110000" using 4 assms by (simp add: scalar_def)
    then have "q \<le> 4" "q = 0 \<longrightarrow> 16 \<le> r" "q = 4 \<longrightarrow> r \<le> 15"
      using n b 4 by auto
    then show ?thesis
      using 4 b utf8_four [OF unat_byte [of "0xF0 + q"]] c [of t] c [of r] c [of u]
      by (simp add: encode_utf8_def q_def [symmetric] r_def [symmetric] t_def [symmetric] u_def [symmetric] del: of_nat_add utf8_ok.simps)
  qed
qed

lemma of_nat_byte: "unat b = n \<Longrightarrow> (of_nat n :: u8) = b"
  by auto

lemma encode_two:
  assumes "unat b = 0xC0 + q" "2 \<le> q" "q < 32" "unat c = 0x80 + t" "t < 64"
  shows "encode_utf8 (64 * q + t) = [b, c]" "scalar (64 * q + t)"
proof -
  have d: "(64 * q + t) div 64 = q" "(64 * q + t) mod 64 = t" and r: "0x80 \<le> 64 * q + t" "64 * q + t < 0x800"
    using assms by auto
  show "encode_utf8 (64 * q + t) = [b, c]"
    unfolding encode_utf8_def d using r of_nat_byte [OF assms(1)] of_nat_byte [OF assms(4)] by (simp del: of_nat_add)
  show "scalar (64 * q + t)" using r by (simp add: scalar_def)
qed

lemma encode_three:
  assumes "unat b = 0xE0 + q" "q < 16" "unat c = 0x80 + r" "r < 64" "unat d = 0x80 + t" "t < 64"
    and "q = 0 \<longrightarrow> 32 \<le> r" "q = 13 \<longrightarrow> r \<le> 31"
  shows "encode_utf8 (4096 * q + 64 * r + t) = [b, c, d]" "scalar (4096 * q + 64 * r + t)"
proof -
  let ?n = "4096 * q + 64 * r + t"
  have "?n = 64 * (64 * q + r) + t" by simp
  then have "?n mod 64 = t" using assms(6) by (metis mod_less mod_mult_self4)
  then have e: "?n div 64 = 64 * q + r" "?n mod 64 = t" "?n div 4096 = q"
    using assms(4,6) by auto
  then have f: "?n div 64 mod 64 = r" using assms(4) by simp
  have g: "0x800 \<le> ?n" "?n < 0x10000" using assms by (cases "q = 0"; simp)+
  show "encode_utf8 ?n = [b, c, d]"
    unfolding encode_utf8_def e(2,3) f using g of_nat_byte [OF assms(1)] of_nat_byte [OF assms(3)] of_nat_byte [OF assms(5)]
    by (simp del: of_nat_add)
  show "scalar ?n"
  proof (cases "q \<le> 13")
    case True
    then have "?n < 0xD800" using assms(4,6,8) by (cases "q = 13") auto
    then show ?thesis by (simp add: scalar_def)
  qed (use g(2) in \<open>simp add: scalar_def\<close>)
qed

lemma encode_four:
  assumes "unat b = 0xF0 + q" "q \<le> 4" "unat c = 0x80 + r" "r < 64" "unat d = 0x80 + t" "t < 64" "unat e = 0x80 + u" "u < 64"
    and "q = 0 \<longrightarrow> 16 \<le> r" "q = 4 \<longrightarrow> r \<le> 15"
  shows "encode_utf8 (262144 * q + 4096 * r + 64 * t + u) = [b, c, d, e]" "scalar (262144 * q + 4096 * r + 64 * t + u)"
proof -
  let ?n = "262144 * q + 4096 * r + 64 * t + u"
  have "?n = 64 * (4096 * q + 64 * r + t) + u" by simp
  then have "?n mod 64 = u" using assms(8) by (metis mod_less mod_mult_self4)
  then have f: "?n div 64 = 64 * (64 * q + r) + t" "?n mod 64 = u" "?n div 4096 = 64 * q + r" "?n div 262144 = q"
    using assms(4,6,8) by auto
  then have g: "?n div 64 mod 64 = t" "?n div 4096 mod 64 = r"
    unfolding f(1,3) using assms(4,6) by (metis mod_less mod_mult_self4)+
  have h: "0x10000 \<le> ?n" "?n < 0x110000" using assms by (cases "q = 0"; cases "q = 4"; simp)+
  show "encode_utf8 ?n = [b, c, d, e]"
    unfolding encode_utf8_def f(2,4) g
    using h of_nat_byte [OF assms(1)] of_nat_byte [OF assms(3)] of_nat_byte [OF assms(5)] of_nat_byte [OF assms(7)]
    by (simp del: of_nat_add)
  show "scalar ?n" using h by (simp add: scalar_def)
qed

text \<open>One character at the front of a valid byte string.\<close>

lemma utf8_ok_Cons:
  assumes "utf8_ok (b # bs)"
  shows "\<exists>n bs'. scalar n \<and> b # bs = encode_utf8 n @ bs' \<and> utf8_ok bs'"
proof -
  consider "unat b < 0x80" | "0x80 \<le> unat b" "unat b < 0xC0" | "0xC0 \<le> unat b" "unat b < 0xE0"
    | "0xE0 \<le> unat b" "unat b < 0xF0" | "0xF0 \<le> unat b"
    by linarith
  then show ?thesis
  proof cases
    case 1
    then show ?thesis
      using assms of_nat_byte [OF refl, of b]
      by (intro exI [of _ "unat b"] exI [of _ bs]) (simp add: encode_utf8_def scalar_def word_less_nat_alt)
  next
    case 2
    then show ?thesis using assms by (simp add: word_less_nat_alt word_le_nat_alt)
  next
    case 3
    define q where "q = unat b - 0xC0"
    then have q: "unat b = 0xC0 + q" "q < 32" using 3 by simp_all
    obtain c bs' t where "2 \<le> q" "bs = c # bs'" "utf8_ok bs'" "t < 64" "unat c = 0x80 + t"
      using assms [unfolded utf8_two [OF q] cont_iff] by auto
    with encode_two [of b q c t] q show ?thesis by (metis append_Cons append_Nil)
  next
    case 4
    define q where "q = unat b - 0xE0"
    then have q: "unat b = 0xE0 + q" "q < 16" using 4 by simp_all
    obtain c d bs' where bs: "bs = c # d # bs'" "utf8_ok bs'" and c: "cont c" "cont d"
      "q = 0 \<longrightarrow> 0xA0 \<le> unat c" "q = 13 \<longrightarrow> unat c \<le> 0x9F"
      using assms [unfolded utf8_three [OF q]] by blast
    obtain r t where "r < 64" "unat c = 0x80 + r" "t < 64" "unat d = 0x80 + t"
      using c(1,2) by (auto simp: cont_iff)
    with encode_three [of b q c r d t] q c(3,4) bs show ?thesis by auto
  next
    case 5
    define q where "q = unat b - 0xF0"
    then have q: "unat b = 0xF0 + q" using 5 by simp_all
    obtain c d e bs' where bs: "bs = c # d # e # bs'" "utf8_ok bs'" "q \<le> 4" and c: "cont c" "cont d" "cont e"
      "q = 0 \<longrightarrow> 0x90 \<le> unat c" "q = 4 \<longrightarrow> unat c \<le> 0x8F"
      using assms [unfolded utf8_four [OF q]] by blast
    obtain r t u where "r < 64" "unat c = 0x80 + r" "t < 64" "unat d = 0x80 + t" "u < 64" "unat e = 0x80 + u"
      using c(1-3) by (auto simp: cont_iff)
    with encode_four [of b q c r d t e u] q c(4,5) bs show ?thesis by auto
  qed
qed

lemma encode_nonempty: "encode_utf8 n \<noteq> []"
  by (simp add: encode_utf8_def)

lemma utf8_ok_iff: "utf8_ok bs \<longleftrightarrow> (\<exists>cs. (\<forall>n \<in> set cs. scalar n) \<and> bs = concat (map encode_utf8 cs))"
proof
  show "utf8_ok bs \<Longrightarrow> \<exists>cs. (\<forall>n \<in> set cs. scalar n) \<and> bs = concat (map encode_utf8 cs)"
  proof (induction "length bs" arbitrary: bs rule: less_induct)
    case less
    show ?case
    proof (cases bs)
      case Nil
      then show ?thesis by (intro exI [of _ "[]"]) simp
    next
      case (Cons b bs1)
      then obtain n bs' where n: "scalar n" "bs = encode_utf8 n @ bs'" "utf8_ok bs'"
        using utf8_ok_Cons less.prems by metis
      then obtain cs where "\<forall>n \<in> set cs. scalar n" "bs' = concat (map encode_utf8 cs)"
        using less.hyps [of bs'] encode_nonempty [of n] by auto
      with n show ?thesis by (intro exI [of _ "n # cs"]) simp
    qed
  qed
next
  assume "\<exists>cs. (\<forall>n \<in> set cs. scalar n) \<and> bs = concat (map encode_utf8 cs)"
  then obtain cs where "\<forall>n \<in> set cs. scalar n" "bs = concat (map encode_utf8 cs)" by blast
  then show "utf8_ok bs"
    by (induction cs arbitrary: bs) (simp_all add: utf8_ok_encode)
qed

section \<open>Structures in memory\<close>

text \<open>The \<open>n\<close> bytes at an address, and the little-endian integer of \<open>n\<close> bytes at an address.\<close>

definition bytes_at :: "(u64 \<Rightarrow> u8) \<Rightarrow> u64 \<Rightarrow> nat \<Rightarrow> u8 list" where
  "bytes_at m a n = map (\<lambda>i. m (a + of_nat i)) [0 ..< n]"

definition word_at :: "(u64 \<Rightarrow> u8) \<Rightarrow> u64 \<Rightarrow> nat \<Rightarrow> 'a::len word" where
  "word_at m a n = le_word (bytes_at m a n)"

lemma length_bytes_at [simp]: "length (bytes_at m a n) = n"
  by (simp add: bytes_at_def)

lemma nth_bytes_at: "i < n \<Longrightarrow> bytes_at m a n ! i = m (a + of_nat i)"
  by (simp add: bytes_at_def)

text \<open>The bytes of a packed structure, read field by field.\<close>

definition field :: "u8 list \<Rightarrow> nat \<Rightarrow> nat \<Rightarrow> u8 list" where
  "field bs off n = take n (drop off bs)"

lemma field_skip: "length xs \<le> off \<Longrightarrow> field (xs @ ys) off n = field ys (off - length xs) n"
  by (simp add: field_def)

lemma field_here: "length xs = n \<Longrightarrow> field (xs @ ys) 0 n = xs" "length xs = n \<Longrightarrow> field xs 0 n = xs"
  by (simp_all add: field_def)

lemma field_join: "field bs a m @ field bs (a + m) n = field bs a (m + n)"
  unfolding field_def by (metis add.commute drop_drop take_add)

lemma length_field: "length bs = l \<Longrightarrow> a + n \<le> l \<Longrightarrow> length (field bs a n) = n"
  by (simp add: field_def)

lemma field_joins:
  "field bs a m @ field bs b n = field bs a (m + n)"
  "field bs a m @ field bs b n @ ys = field bs a (m + n) @ ys" if "b = a + m"
  using that field_join [of bs a m n] by (simp_all flip: append_assoc)

end
