(* ===== verification/Syscall.thy ===== *)
theory Syscall
  imports Scheduler Vga_Text Utf8
begin

text \<open>
  \<^verbatim>\<open>src/syscall.rs\<close>, \<^verbatim>\<open>src/syscall/display.rs\<close> and \<^verbatim>\<open>src/syscall/process.rs\<close>: entering the kernel. The
  naked routine \<^verbatim>\<open>syscall_wrapper\<close> is an instruction list; the three Rust routines it calls are
  given by their effect on the processor, and \<open>abi\<close> states what the C calling convention
  guarantees of them. What the routines do to the kernel's state is modelled separately, over a
  record of the screen, the heap and the scheduler.
\<close>

section \<open>Machine registers\<close>

definition MSR_SCE :: u32 where "MSR_SCE = 0xC0000080"
definition IA32_STAR :: u32 where "IA32_STAR = 0xC0000081"
definition IA32_LSTAR :: u32 where "IA32_LSTAR = 0xC0000082"
definition IA32_FMASK :: u32 where "IA32_FMASK = 0xC0000084"

definition STACK_SIZE :: usize where "STACK_SIZE = 0x1000"

text \<open>\<open>handler_addr\<close> is the address of \<^verbatim>\<open>syscall_wrapper\<close>.\<close>

definition syscall_init :: "u64 \<Rightarrow> cpu \<Rightarrow> cpu" where
  "syscall_init handler_addr c =
     (let new_sce = msr c MSR_SCE OR 1
      in exec (\<lambda>(_ :: unit) c. c)
           [WRMSR MSR_SCE new_sce, WRMSR IA32_FMASK 0x200, WRMSR IA32_LSTAR handler_addr,
            WRMSR IA32_STAR 0x23000800000000] c)"

section \<open>The wrapper\<close>

datatype routine = setup_stack | handler | free_stack

definition syscall_wrapper :: "routine instr list" where
  "syscall_wrapper =
     [PUSH RCX, PUSH R11, PUSH RBP, PUSH RBX, PUSH R12, PUSH R13, PUSH R14, PUSH R15,
      MOV RBP RSP,
      PUSH RAX, PUSH RDI, PUSH RSI, PUSH RDX, PUSH R10,
      CALL setup_stack,
      MOV R9 RAX,
      STI,
      POP R8, POP RCX, POP RDX, POP RSI, POP RDI,
      MOV RSP R9,
      PUSH R9,
      CALL handler,
      CLI,
      POP RDI,
      CALL free_stack,
      MOV RSP RBP,
      POP R15, POP R14, POP R13, POP R12, POP RBX, POP RBP, POP R11, POP RCX,
      SYSRETQ]"

text \<open>The part of the wrapper up to the call of the handler, and the part after it.\<close>

definition before_handler :: "routine instr list" where
  "before_handler = take 24 syscall_wrapper"

definition after_handler :: "routine instr list" where
  "after_handler = drop 25 syscall_wrapper"

lemma syscall_wrapper_split: "syscall_wrapper = before_handler @ CALL handler # after_handler"
  by (simp add: before_handler_def after_handler_def syscall_wrapper_def)

text \<open>
  The C calling convention: a routine preserves \<^verbatim>\<open>rbx\<close>, \<^verbatim>\<open>rbp\<close>, \<^verbatim>\<open>rsp\<close> and \<^verbatim>\<open>r12\<close> to \<^verbatim>\<open>r15\<close>. \<open>keeps slots\<close> says
  that it leaves the caller's stack slots alone.
\<close>

definition abi :: "(cpu \<Rightarrow> cpu) \<Rightarrow> bool" where
  "abi f \<longleftrightarrow> (\<forall>c. \<forall>r \<in> {RBX, RBP, RSP, R12, R13, R14, R15}. regs (f c) r = regs c r) \<and> (\<forall>c. msr (f c) = msr c)"

definition keeps :: "u64 set \<Rightarrow> (cpu \<Rightarrow> cpu) \<Rightarrow> bool" where
  "keeps slots f \<longleftrightarrow> (\<forall>c. \<forall>a \<in> slots. load64 (mem (f c)) a = load64 (mem c) a)"

text \<open>The thirteen slots below the user's stack pointer, and the first slot of the new stack.\<close>

definition saved_slots :: "u64 \<Rightarrow> u64 set" where
  "saved_slots sp = (\<lambda>i. sp - 8 * i) ` {1, 2, 3, 4, 5, 6, 7, 8}"

definition arg_slots :: "u64 \<Rightarrow> u64 set" where
  "arg_slots sp = (\<lambda>i. sp - 8 * i) ` {9, 10, 11, 12, 13}"

lemma abiD:
  assumes "abi f"
  shows "regs (f c) RBX = regs c RBX" "regs (f c) RBP = regs c RBP" "regs (f c) RSP = regs c RSP"
    "regs (f c) R12 = regs c R12" "regs (f c) R13 = regs c R13" "regs (f c) R14 = regs c R14"
    "regs (f c) R15 = regs c R15" "msr (f c) = msr c"
  using assms by (simp_all add: abi_def)

lemma saved_slotsD:
  assumes "keeps (saved_slots sp) f"
  shows "load64 (mem (f c)) (sp - 8) = load64 (mem c) (sp - 8)"
    "load64 (mem (f c)) (sp - 16) = load64 (mem c) (sp - 16)"
    "load64 (mem (f c)) (sp - 24) = load64 (mem c) (sp - 24)"
    "load64 (mem (f c)) (sp - 32) = load64 (mem c) (sp - 32)"
    "load64 (mem (f c)) (sp - 40) = load64 (mem c) (sp - 40)"
    "load64 (mem (f c)) (sp - 48) = load64 (mem c) (sp - 48)"
    "load64 (mem (f c)) (sp - 56) = load64 (mem c) (sp - 56)"
    "load64 (mem (f c)) (sp - 64) = load64 (mem c) (sp - 64)"
  using assms by (simp_all add: keeps_def saved_slots_def)

lemma arg_slotsD:
  assumes "keeps (arg_slots sp) f"
  shows "load64 (mem (f c)) (sp - 72) = load64 (mem c) (sp - 72)"
    "load64 (mem (f c)) (sp - 80) = load64 (mem c) (sp - 80)"
    "load64 (mem (f c)) (sp - 88) = load64 (mem c) (sp - 88)"
    "load64 (mem (f c)) (sp - 96) = load64 (mem c) (sp - 96)"
    "load64 (mem (f c)) (sp - 104) = load64 (mem c) (sp - 104)"
  using assms by (simp_all add: keeps_def arg_slots_def)

definition apart_slots :: "u64 \<Rightarrow> u64 set \<Rightarrow> bool" where
  "apart_slots a slots \<longleftrightarrow> (\<forall>b \<in> slots. 8 \<le> unat (a - b) \<and> 8 \<le> unat (b - a))"

lemma apart_slotsD:
  "apart_slots a slots \<Longrightarrow> b \<in> slots \<Longrightarrow> load64 (store64 m a v) b = load64 m b"
  by (simp add: apart_slots_def)

text \<open>The state in which the handler is called.\<close>

lemma before_handler_state:
  fixes c :: cpu
  assumes su: "abi (call setup_stack)" "keeps (saved_slots (regs c RSP)) (call setup_stack)" "keeps (arg_slots (regs c RSP)) (call setup_stack)"
    and stk: "\<And>c. regs (call setup_stack c) RAX = stk"
    and far: "apart_slots (stk - 8) (saved_slots (regs c RSP))"
  defines "h \<equiv> exec call before_handler c"
  shows "regs h RDI = regs c RAX" "regs h RSI = regs c RDI" "regs h RDX = regs c RSI"
    "regs h RCX = regs c RDX" "regs h R8 = regs c R10" "regs h R9 = stk" "regs h RSP = stk - 8"
    "regs h RBP = regs c RSP - 64" "load64 (mem h) (stk - 8) = stk" "msr h = msr c"
    "regs h RBX = regs c RBX" "regs h R12 = regs c R12" "regs h R13 = regs c R13" "regs h R14 = regs c R14" "regs h R15 = regs c R15"
    "load64 (mem h) (regs c RSP - 8) = regs c RCX" "load64 (mem h) (regs c RSP - 16) = regs c R11"
    "load64 (mem h) (regs c RSP - 24) = regs c RBP" "load64 (mem h) (regs c RSP - 32) = regs c RBX"
    "load64 (mem h) (regs c RSP - 40) = regs c R12" "load64 (mem h) (regs c RSP - 48) = regs c R13"
    "load64 (mem h) (regs c RSP - 56) = regs c R14" "load64 (mem h) (regs c RSP - 64) = regs c R15"
  by (simp_all add: h_def before_handler_def syscall_wrapper_def machine_simps stk abiD [OF su(1)]
      arg_slotsD [OF su(3)] saved_slotsD [OF su(2)] apart_slotsD [OF far] saved_slots_def)

text \<open>From the handler's return to user mode: \<open>sp\<close> is the user's stack pointer.\<close>

lemma after_handler_state:
  fixes h :: cpu
  assumes fr: "abi (call free_stack)" "keeps (saved_slots sp) (call free_stack)"
    and bp: "regs h RBP = sp - 64"
  defines "f \<equiv> exec call after_handler h"
    and "d \<equiv> call free_stack (exec call [CLI, POP RDI] h)"
  shows "rip f = load64 (mem h) (sp - 8)" "regs f RCX = load64 (mem h) (sp - 8)" "regs f R11 = load64 (mem h) (sp - 16)"
    "regs f RBP = load64 (mem h) (sp - 24)" "regs f RBX = load64 (mem h) (sp - 32)" "regs f R12 = load64 (mem h) (sp - 40)"
    "regs f R13 = load64 (mem h) (sp - 48)" "regs f R14 = load64 (mem h) (sp - 56)" "regs f R15 = load64 (mem h) (sp - 64)"
    "regs f RSP = sp" "seg_cs f = (sysret_selector (msr_star h) + 16) OR 3" "seg_ss f = (sysret_selector (msr_star h) + 8) OR 3"
    "rflags f = (load64 (mem h) (sp - 16) AND 0x3C7FD7) OR 2" "regs f RAX = regs d RAX"
  by (simp_all add: f_def d_def after_handler_def syscall_wrapper_def machine_simps sysret_def msr_star_def bp abiD [OF fr(1)]
      saved_slotsD [OF fr(2)])

text \<open>
  The environment of one system call from user mode with stack pointer \<open>sp\<close>: the routines follow the
  calling convention, they do not write the caller's slots, and the stack that is set up lies
  elsewhere.
\<close>

definition syscall_env :: "(routine \<Rightarrow> cpu \<Rightarrow> cpu) \<Rightarrow> u64 \<Rightarrow> u64 \<Rightarrow> bool" where
  "syscall_env call sp stk \<longleftrightarrow>
     (\<forall>r. abi (call r) \<and> keeps (saved_slots sp) (call r)) \<and> keeps (arg_slots sp) (call setup_stack) \<and>
     keeps {stk - 8} (call handler) \<and> (\<forall>c. regs (call setup_stack c) RAX = stk) \<and>
     apart_slots (stk - 8) (saved_slots sp)"

lemma syscall_envD:
  assumes "syscall_env call sp stk"
  shows "abi (call r)" "keeps (saved_slots sp) (call r)" "keeps (arg_slots sp) (call setup_stack)"
    "load64 (mem (call handler c)) (stk - 8) = load64 (mem c) (stk - 8)"
    "regs (call setup_stack c) RAX = stk" "apart_slots (stk - 8) (saved_slots sp)"
  using assms by (simp_all add: syscall_env_def keeps_def)

text \<open>Routines that touch only \<^verbatim>\<open>rax\<close>: a kernel stack in the heap, a handler that returns \<open>v\<close>.\<close>

fun example_calls :: "u64 \<Rightarrow> routine \<Rightarrow> cpu \<Rightarrow> cpu" where
  "example_calls v setup_stack c = set_reg RAX 0x444444441000 c"
| "example_calls v handler c = set_reg RAX v c"
| "example_calls v free_stack c = set_reg RAX 0x1234 c"

definition user_cpu :: cpu where
  "user_cpu = \<lparr>regs = (\<lambda>_. 0)(RAX := 0, RDI := 0x400100, RSI := 5, RCX := 0x400007, R11 := 0x202, RSP := 0x810000, RBX := 42),
     rip = 0x9000, rflags = 0x2, seg_cs = 8, seg_ss = 16, cr3 = (0, 0), msr = (\<lambda>_. 0), mem = (\<lambda>_. 0)\<rparr>"

lemma example_env: "syscall_env (example_calls v) (regs user_cpu RSP) 0x444444441000"
proof -
  have "abi (example_calls v r) \<and> keeps S (example_calls v r)" for r S
    by (cases r) (auto simp: abi_def keeps_def set_reg_def)
  moreover have "apart_slots (0x444444441000 - 8) (saved_slots 0x810000)"
    by (simp add: apart_slots_def saved_slots_def)
  ultimately show ?thesis
    by (simp add: syscall_env_def user_cpu_def set_reg_def)
qed

text \<open>C28: A system call reaches the handler with its arguments where the C calling convention puts them:
  the number of the call (\<^verbatim>\<open>rax\<close>) first, then \<^verbatim>\<open>rdi\<close>, \<^verbatim>\<open>rsi\<close>, \<^verbatim>\<open>rdx\<close>, \<^verbatim>\<open>r10\<close> and the end of the new
  stack; the stack pointer is in the new stack, whose first slot holds its end.\<close>

theorem syscall_arguments:
  fixes c :: cpu
  assumes "syscall_env call (regs c RSP) stk"
  shows "let h = exec call before_handler c
    in map (regs h) [RDI, RSI, RDX, RCX, R8, R9] = [regs c RAX, regs c RDI, regs c RSI, regs c RDX, regs c R10, stk] \<and>
       regs h RSP = stk - 8 \<and> load64 (mem h) (regs h RSP) = stk"
  using before_handler_state [of call c stk] syscall_envD [OF assms] by (simp add: Let_def)

theorem syscall_arguments_witness:
  "let h = exec (example_calls 0) before_handler user_cpu
   in map (regs h) [RDI, RSI, RDX] = [0, 0x400100, 5] \<and> regs h R9 = 0x444444441000"
  using syscall_arguments [OF example_env [of 0]] by (simp add: Let_def user_cpu_def)

text \<open>C7: A system call returns to the instruction after it, with the user's stack pointer, the callee-saved
  registers, and \<^verbatim>\<open>rcx\<close> and \<^verbatim>\<open>r11\<close> as they were on entry, whatever the handler did.\<close>

theorem syscall_returns_to_user:
  fixes c :: cpu
  assumes "syscall_env call (regs c RSP) stk"
  shows "let f = exec call syscall_wrapper c
    in rip f = regs c RCX \<and> rflags f = (regs c R11 AND 0x3C7FD7) OR 2 \<and>
       map (regs f) [RSP, RBX, RBP, R12, R13, R14, R15, RCX, R11] = map (regs c) [RSP, RBX, RBP, R12, R13, R14, R15, RCX, R11] \<and>
       seg_cs f = (sysret_selector (msr_star c) + 16) OR 3 \<and> seg_ss f = (sysret_selector (msr_star c) + 8) OR 3"
proof -
  note e = syscall_envD [OF assms]
  note b = before_handler_state [where call = call and c = c, OF e(1) e(2) e(3) e(5) e(6)]
  let ?h = "call handler (exec call before_handler c)"
  have "regs ?h RBP = regs c RSP - 64" using b(8) abiD(2) [OF e(1)] by simp
  note a = after_handler_state [where call = call, OF e(1) e(2) this]
  have "exec call syscall_wrapper c = exec call after_handler ?h"
    by (simp add: syscall_wrapper_split exec_append)
  moreover have "msr_star ?h = msr_star c" using b(10) abiD(8) [OF e(1)] by (simp add: msr_star_def)
  ultimately show ?thesis
    using a b saved_slotsD [OF e(2)] by (simp add: Let_def)
qed

theorem syscall_returns_to_user_witness:
  "let f = exec (example_calls 0) syscall_wrapper user_cpu in rip f = 0x400007 \<and> regs f RSP = 0x810000 \<and> regs f RBX = 42"
  using syscall_returns_to_user [OF example_env [of 0]] by (simp add: Let_def user_cpu_def)

lemma wrapper_rax:
  "syscall_env call (regs c RSP) stk \<Longrightarrow>
   regs (exec call syscall_wrapper c) RAX =
   regs (call free_stack (exec call [CLI, POP RDI] (call handler (exec call before_handler c)))) RAX"
proof -
  assume env: "syscall_env call (regs c RSP) stk"
  note e = syscall_envD [OF env]
  note b = before_handler_state [where call = call and c = c, OF e(1) e(2) e(3) e(5) e(6)]
  have "regs (call handler (exec call before_handler c)) RBP = regs c RSP - 64" using b(8) abiD(2) [OF e(1)] by simp
  note a = after_handler_state [where call = call, OF e(1) e(2) this]
  then show ?thesis by (simp add: syscall_wrapper_split exec_append)
qed



section \<open>The selectors of the system call registers\<close>

text \<open>C30: The constant written to the STAR register fits the descriptor table: after \<^verbatim>\<open>gdt::init\<close>'s table is
  built and \<^verbatim>\<open>syscall::init\<close> has run, a \<^verbatim>\<open>syscall\<close> instruction enters \<^verbatim>\<open>syscall_wrapper\<close> with the kernel's code
  and data selectors and interrupts off, and a \<^verbatim>\<open>sysretq\<close> leaves with exactly the user selectors that
  \<^verbatim>\<open>set_usermode_segments\<close> computes.\<close>

theorem syscall_selectors_match_gdt:
  fixes c :: cpu
  assumes "add_entry_doc add_entry used" and "used gdt0 = 1"
  shows "let sel = snd (GDT add_entry gdt0 t); c = syscall_init wrapper c; k = syscall_entry next_rip c; u = sysret c;
             (cs_index, ds_index) = fst (set_usermode_segments sel segs)
    in rip k = wrapper \<and> seg_cs k = code_selector sel \<and> seg_ss k = data_selector sel \<and> rflags k AND IF_bit = 0 \<and>
       seg_cs u = cs_index \<and> seg_ss u = ds_index"
proof -
  have "(rflags c AND NOT 0x200) AND IF_bit = 0"
    unfolding IF_bit_def by (rule bit_word_eqI) (auto simp: bit_simps)
  then show ?thesis
    using GDT_selectors [OF assms]
    by (simp add: Let_def syscall_init_def syscall_entry_def sysret_def set_usermode_segments_def msr_star_def
        MSR_SCE_def IA32_STAR_def IA32_LSTAR_def IA32_FMASK_def sysret_selector_def syscall_selector_def set_reg_def)
qed

theorem syscall_selectors_match_gdt_witness:
  "seg_cs (sysret (syscall_init 0x9000 user_cpu)) = 0x33"
  using syscall_selectors_match_gdt [OF list_add_entry_doc, of "[]"
      "TSS 0 0" "0x9000" user_cpu "0x400007" "\<lparr>loaded_gdt = None, cs_reg = 0, ds_reg = 0, task_reg = 0\<rparr> :: unit segments"]
    GDT_selectors [OF list_add_entry_doc, of "[]" "TSS 0 0"]
  by (simp add: Let_def set_usermode_segments_def)

section \<open>The kernel stack of a system call\<close>

definition stack_layout :: layout where
  "stack_layout = \<lparr>lsize = STACK_SIZE, lalign = 8\<rparr>"

definition setup_syscall_stack ::
  "('h \<Rightarrow> layout \<Rightarrow> u64 option \<times> 'h) \<Rightarrow> 'h fixed_block_alloc \<Rightarrow> (u64 \<times> 'h fixed_block_alloc) rust" where
  "setup_syscall_stack first_fit heap =
     bindE (alloc first_fit stack_layout heap) (\<lambda>(syscall_stack, heap). Inr (syscall_stack + STACK_SIZE, heap))"

definition delete_syscall_stack ::
  "('h \<Rightarrow> u64 \<Rightarrow> layout \<Rightarrow> 'h) \<Rightarrow> u64 \<Rightarrow> 'h fixed_block_alloc \<Rightarrow> 'h fixed_block_alloc rust" where
  "delete_syscall_stack release stack_end_ptr heap =
     dealloc release (stack_end_ptr - STACK_SIZE) stack_layout heap"

lemma stack_layout_simps:
  "valid_layout stack_layout" "block_index stack_layout = None"
  by (auto simp: stack_layout_def valid_layout_def STACK_SIZE_def block_index_def BLOCK_SIZES_def intro!: bexI [of _ 3])

text \<open>C31: The stack of a system call is taken from the kernel heap and given back. From any reachable state of
  the heap, setting up a stack yields 4096 bytes apart from every live block; deleting the stack by
  its end pointer never panics and leads to a reachable state with the same live blocks.\<close>

theorem syscall_stack_roundtrip:
  assumes hc: "heap_contract first_fit release ok out lo hi"
    and h0: "ok (heap_init h start sz)" "out (heap_init h start sz) = {}"
    and run: "heap_run first_fit release (fba_init heap_init start sz (fba_new h m)) (a, blocks)"
    and su: "setup_syscall_stack first_fit a = Inr (stk, a1)" and "stk \<noteq> 0x1000"
  shows "(\<forall>x \<in> blocks. apart (stk - 0x1000, 0x1000) (live_chunk x)) \<and>
    (\<exists>a2. delete_syscall_stack release stk a1 = Inr a2 \<and>
       heap_run first_fit release (fba_init heap_init start sz (fba_new h m)) (a2, blocks))"
proof -
  let ?p = "stk - 0x1000" and ?a0 = "fba_init heap_init start sz (fba_new h m)"
  have al: "alloc first_fit stack_layout a = Inr (?p, a1)" and p: "?p \<noteq> 0"
    using su \<open>stk \<noteq> 0x1000\<close> by (auto simp: setup_syscall_stack_def STACK_SIZE_def bindE_eq_Inr)
  obtain free where inv: "heap_inv ok out lo hi free blocks a"
    using heap_run_inv [OF run [unfolded fba_init_new] hc h0] by auto
  have new: "\<forall>x \<in> blocks. fst x \<noteq> ?p"
    using alloc_inv [OF hc inv stack_layout_simps(1)] al p by auto
  have run1: "heap_run first_fit release ?a0 (a1, insert (?p, stack_layout) blocks)"
    by (rule heap_run.step [OF run heap_step.allocated [OF stack_layout_simps(1) al p]])
  obtain free' where inv1: "heap_inv ok out lo hi free' (insert (?p, stack_layout) blocks) a1"
    using heap_run_inv [OF run1 [unfolded fba_init_new] hc h0] by auto
  obtain a2 where de: "dealloc release ?p stack_layout a1 = Inr a2"
    using dealloc_inv [OF hc inv1, of ?p stack_layout] by auto
  have "heap_run first_fit release ?a0 (a2, insert (?p, stack_layout) blocks - {(?p, stack_layout)})"
    by (rule heap_run.step [OF run1 heap_step.freed [OF _ de]]) simp
  moreover have "insert (?p, stack_layout) blocks - {(?p, stack_layout)} = blocks"
    using new by auto
  moreover have "apart (?p, 0x1000) (live_chunk x)" if x: "x \<in> blocks" for x
  proof -
    have "live_chunk (?p, stack_layout) \<noteq> live_chunk x"
      using new x by (metis fst_conv fst_live_chunk)
    moreover have "live_chunk (?p, stack_layout) \<in> owned free' (insert (?p, stack_layout) blocks)"
      and "live_chunk x \<in> owned free' (insert (?p, stack_layout) blocks)"
      using x by (simp_all add: owned_live)
    ultimately have "apart (live_chunk (?p, stack_layout)) (live_chunk x)"
      using heap_invD(11) [OF inv1] unfolding separated_def by blast
    then show ?thesis
      by (simp add: live_chunk_def block_size_of_def stack_layout_simps(2)) (simp add: stack_layout_def STACK_SIZE_def)
  qed
  ultimately show ?thesis
    using de by (auto simp: delete_syscall_stack_def STACK_SIZE_def)
qed

theorem syscall_stack_roundtrip_witness:
  "\<exists>stk a1 a2. setup_syscall_stack bump_fit
      \<lparr>list_heads = replicate 9 None, node_next = \<lambda>_. None,
       fallback = (0x444444440028, [(0x444444440020, 8), (0x444444440000, 32)])\<rparr> = Inr (stk, a1) \<and>
     delete_syscall_stack bump_release stk a1 = Inr a2"
proof -
  let ?a = "\<lparr>list_heads = replicate 9 None, node_next = \<lambda>_. None,
       fallback = (0x444444440028, [(0x444444440020, 8), (0x444444440000, 32)])\<rparr> :: (nat \<times> chunk list) fixed_block_alloc"
  obtain a1 where su: "setup_syscall_stack bump_fit ?a = Inr (0x444444441028, a1)"
    by (simp add: setup_syscall_stack_def alloc_def stack_layout_simps(2) fallback_alloc_def bump_fit_def)
      (simp add: stack_layout_def STACK_SIZE_def)
  from syscall_stack_roundtrip [OF bump_heap_contract _ _ bump_two_allocations su] su
  show ?thesis by (auto simp: bump_ok_def)
qed

text \<open>A failed allocation is not noticed: when the fallback heap has no 4096 bytes left, the null pointer
  is taken for a stack and its end, the address 0x1000, is used; deleting that stack panics.\<close>

theorem syscall_stack_unchecked:
  assumes "first_fit (fallback a) stack_layout = (None, h')"
  shows "setup_syscall_stack first_fit a = Inr (0x1000, a\<lparr>fallback := h'\<rparr>) \<and>
    delete_syscall_stack release 0x1000 (a\<lparr>fallback := h'\<rparr>) = Inl (UnwrapFailed ''unwrap'')"
  using assms
  by (simp add: setup_syscall_stack_def delete_syscall_stack_def alloc_def dealloc_def fallback_alloc_def
      stack_layout_simps(2) STACK_SIZE_def)

theorem syscall_stack_unchecked_witness:
  "setup_syscall_stack bump_fit (fba_new (0x444444540000, []) (\<lambda>_. None)) = Inr (0x1000, fba_new (0x444444540000, []) (\<lambda>_. None))"
proof -
  have "bump_fit (fallback (fba_new (0x444444540000, []) (\<lambda>_. None))) stack_layout = (None, (0x444444540000, []))"
    by (simp add: bump_fit_def fba_new_def stack_layout_def STACK_SIZE_def)
  from syscall_stack_unchecked [where first_fit = bump_fit, OF this] show ?thesis
    by (simp add: fba_new_def)
qed

section \<open>The handler\<close>

definition slice_at :: "memory \<Rightarrow> u64 \<Rightarrow> usize \<Rightarrow> u8 list" where
  "slice_at m addr len = map (\<lambda>i. m (addr + of_nat i)) [0 ..< unat len]"

text \<open>Results are \<^verbatim>\<open>i64\<close>, kept as 64-bit words.\<close>

definition print_vga_text :: "memory \<Rightarrow> u64 \<Rightarrow> u64 \<Rightarrow> writer \<Rightarrow> (u64 \<times> writer) rust" where
  "print_vga_text m text_addr len w =
     (let bytes = slice_at m text_addr len
      in if utf8_ok bytes then bindE (vga_print [bytes] w) (\<lambda>w. Inr (0, w)) else Inr (- 1, w))"

record ('h, 'f) kernel =
  screen :: writer
  heap :: "'h fixed_block_alloc"
  scheduler :: "'f Scheduler"

text \<open>How a system call ends: back in user mode with a result, or in another process.\<close>

datatype ('h, 'f) syscall_end = Return u64 "('h, 'f) kernel" | Leave "'f switch" "('h, 'f) kernel"

definition exit ::
  "bool \<Rightarrow> ('h \<Rightarrow> u64 \<Rightarrow> layout \<Rightarrow> 'h) \<Rightarrow> cpu \<Rightarrow> u64 \<Rightarrow> ('h, 'f) kernel \<Rightarrow> ('h, 'f) syscall_end rust option" where
  "exit oc release c stack_addr k =
     (case delete_syscall_stack release stack_addr (heap k) of
        Inl e \<Rightarrow> Some (Inl e)
      | Inr a \<Rightarrow>
          (case end_current_task oc c (scheduler k) of
             None \<Rightarrow> None
           | Some (Inl e) \<Rightarrow> Some (Inl e)
           | Some (Inr (sw, s)) \<Rightarrow> Some (Inr (Leave sw (k\<lparr>heap := a, scheduler := s\<rparr>)))))"

definition ascii :: "string \<Rightarrow> u8 list" where
  "ascii s = map of_char s"

fun dec :: "nat \<Rightarrow> u8 list" where
  "dec n = (if n < 10 then [] else dec (n div 10)) @ [of_nat (48 + n mod 10)]"

declare dec.simps [simp del]

definition default_syscall :: "u64 \<Rightarrow> writer \<Rightarrow> (u64 \<times> writer) rust" where
  "default_syscall syscall_id w =
     bindE (vga_print [ascii ''unknown syscall: '', dec (unat syscall_id), [0x0A]] w) (\<lambda>w. Inr (0, w))"

definition returns :: "('h, 'f) kernel \<Rightarrow> (u64 \<times> writer) rust \<Rightarrow> ('h, 'f) syscall_end rust option" where
  "returns k r = Some (bindE r (\<lambda>(v, w). Inr (Return v (k\<lparr>screen := w\<rparr>))))"

definition syscall_handler ::
  "bool \<Rightarrow> ('h \<Rightarrow> u64 \<Rightarrow> layout \<Rightarrow> 'h) \<Rightarrow> cpu \<Rightarrow> u64 \<Rightarrow> u64 \<Rightarrow> u64 \<Rightarrow> u64 \<Rightarrow> u64 \<Rightarrow> u64 \<Rightarrow> ('h, 'f) kernel \<Rightarrow>
   ('h, 'f) syscall_end rust option" where
  "syscall_handler oc release c syscall_id arg0 arg1 arg2 arg3 stack_addr k =
     (if syscall_id = 0 then returns k (print_vga_text (mem c) arg0 arg1 (screen k))
      else if syscall_id = 1 then exit oc release c stack_addr k
      else returns k (default_syscall syscall_id (screen k)))"

section \<open>What the calls do\<close>

text \<open>C32: Printing from user space: if the bytes at the given address are the UTF-8 encoding of a sequence of
  Unicode scalar values, the call returns 0 and the screen shows them after what it showed before,
  non-ASCII bytes as question marks; otherwise it returns -1 and nothing in the kernel changes.\<close>

theorem print_syscall:
  fixes k :: "('h, 'f) kernel"
  assumes "displays (screen k) hist" and "length (last hist) < 80"
  shows "let bytes = slice_at (mem c) addr len
    in if \<exists>cs. (\<forall>n \<in> set cs. scalar n) \<and> bytes = concat (map encode_utf8 cs)
    then \<exists>w. syscall_handler oc release c 0 addr len arg2 arg3 stk k = Some (Inr (Return 0 (k\<lparr>screen := w\<rparr>))) \<and>
      displays w (term_string (default_color (screen k)) hist bytes)
    else syscall_handler oc release c 0 addr len arg2 arg3 stk k = Some (Inr (Return (- 1) k))"
  using vga_print_displays [OF assms, of "[slice_at (mem c) addr len]"]
  by (auto simp: syscall_handler_def returns_def print_vga_text_def Let_def utf8_ok_iff [symmetric])

theorem print_syscall_witness:
  "\<exists>w. syscall_handler True bump_release (user_cpu\<lparr>mem := (\<lambda>a. if a = 0x400100 then 0x48 else 0x69)\<rparr>) 0 0x400100 2 0 0 0
       \<lparr>screen = writer_new (replicate 25 (replicate 80 \<lparr>get_char = 0, get_color = 0\<rparr>)),
        heap = fba_new (0, []) (\<lambda>_. None), scheduler = (SCHEDULER :: u64 Scheduler)\<rparr> =
     Some (Inr (Return 0 \<lparr>screen = w, heap = fba_new (0, []) (\<lambda>_. None), scheduler = SCHEDULER\<rparr>)) \<and>
     displays w [[\<lparr>get_char = 0x48, get_color = 15\<rparr>, \<lparr>get_char = 0x69, get_color = 15\<rparr>]]"
proof -
  let ?c = "user_cpu\<lparr>mem := (\<lambda>a. if a = 0x400100 then 0x48 else 0x69)\<rparr>"
  let ?k = "\<lparr>screen = writer_new (replicate 25 (replicate 80 \<lparr>get_char = 0, get_color = 0\<rparr>)),
        heap = fba_new (0, []) (\<lambda>_. None), scheduler = (SCHEDULER :: u64 Scheduler)\<rparr>"
  have "displays (screen ?k) [[]]" by (simp add: writer_new_displays screen_dims_def)
  from print_syscall [OF this, of ?c "0x400100" 2 True bump_release 0 0 0] show ?thesis
    by (simp add: utf8_ok_iff [symmetric] slice_at_def upt_eval Let_def writer_new_def color_code_new_def term_string_def term_byte_def
        sanitize_def printable_def)
qed

text \<open>An unknown system call prints its number on a line of its own and returns 0.\<close>

theorem unknown_syscall:
  fixes k :: "('h, 'f) kernel"
  assumes "displays (screen k) hist" and "length (last hist) < 80" and "2 \<le> n"
  shows "\<exists>w. syscall_handler oc release c n arg0 arg1 arg2 arg3 stk k = Some (Inr (Return 0 (k\<lparr>screen := w\<rparr>))) \<and>
      displays w (term_string (default_color (screen k)) hist (ascii ''unknown syscall: '' @ dec (unat n) @ [0x0A]))"
proof -
  have "n \<noteq> 0 \<and> n \<noteq> 1" using assms(3) by (auto simp: word_le_nat_alt)
  then show ?thesis
    using vga_print_displays [OF assms(1,2), of "[ascii ''unknown syscall: '', dec (unat n), [0x0A]]"]
    by (auto simp: syscall_handler_def returns_def default_syscall_def)
qed

theorem unknown_syscall_witness:
  "\<exists>w. syscall_handler True bump_release user_cpu 7 0 0 0 0 0
       \<lparr>screen = writer_new (replicate 25 (replicate 80 \<lparr>get_char = 0, get_color = 0\<rparr>)),
        heap = fba_new (0, []) (\<lambda>_. None), scheduler = (SCHEDULER :: u64 Scheduler)\<rparr> =
     Some (Inr (Return 0 \<lparr>screen = w, heap = fba_new (0, []) (\<lambda>_. None), scheduler = SCHEDULER\<rparr>))"
proof -
  let ?k = "\<lparr>screen = writer_new (replicate 25 (replicate 80 \<lparr>get_char = 0, get_color = 0\<rparr>)),
        heap = fba_new (0, []) (\<lambda>_. None), scheduler = (SCHEDULER :: u64 Scheduler)\<rparr>"
  have "displays (screen ?k) [[]]" by (simp add: writer_new_displays screen_dims_def)
  from unknown_syscall [OF this, of 7 True bump_release user_cpu 0 0 0 0 0] show ?thesis
    by auto
qed

text \<open>C33: Exiting a process: when the next task in cyclic order is ready, the exit call gives back the
  call's stack, marks the caller done and switches to that task, which becomes current and running;
  no other task changes.\<close>

theorem exit_syscall:
  fixes k :: "('h, 'f) kernel"
  defines "s \<equiv> scheduler k"
  assumes "length (tasks s) < 2 ^ 63" and "2 \<le> length (tasks s)" and "unat (current_task s) < length (tasks s)"
    and "state (tasks s ! (Suc (unat (current_task s)) mod length (tasks s))) = READY"
    and "delete_syscall_stack release stk (heap k) = Inr a"
  shows "\<exists>s'. syscall_handler oc release c 1 code arg1 arg2 arg3 stk k =
      Some (Inr (Leave (Run (process (tasks s ! (Suc (unat (current_task s)) mod length (tasks s))))) (k\<lparr>heap := a, scheduler := s'\<rparr>))) \<and>
    unat (current_task s') = Suc (unat (current_task s)) mod length (tasks s) \<and>
    map state (tasks s') = (map state (tasks s))
      [unat (current_task s) := DONE, Suc (unat (current_task s)) mod length (tasks s) := RUNNING] \<and>
    map pid (tasks s') = map pid (tasks s)"
proof -
  let ?n = "length (tasks s)" let ?j = "Suc (unat (current_task s)) mod ?n"
  obtain s' where e: "end_current_task oc c s = Some (Inr (Run (process (tasks s ! ?j)), s'))"
    and s': "unat (current_task s') = ?j" "length (tasks s') = ?n"
    "\<forall>i < ?n. state (tasks s' ! i) = (if i = unat (current_task s) then DONE else if i = ?j then RUNNING else state (tasks s ! i)) \<and>
       pid (tasks s' ! i) = pid (tasks s ! i)"
    using exit_runs_next [OF assms(2,3) refl assms(4,5)] by blast
  have j: "?j < ?n" "?j \<noteq> unat (current_task s)" using assms(3,4) by (auto simp: mod_Suc)
  have "syscall_handler oc release c 1 code arg1 arg2 arg3 stk k =
      Some (Inr (Leave (Run (process (tasks s ! ?j))) (k\<lparr>heap := a, scheduler := s'\<rparr>)))"
    using e assms(6) by (simp add: syscall_handler_def exit_def s_def)
  moreover have "map state (tasks s') = (map state (tasks s)) [unat (current_task s) := DONE, ?j := RUNNING]"
    by (rule nth_equalityI) (use s' assms(4) j in \<open>auto simp: nth_list_update\<close>)
  moreover have "map pid (tasks s') = map pid (tasks s)"
    by (rule nth_equalityI) (use s' in auto)
  ultimately show ?thesis using s'(1) by blast
qed

theorem exit_syscall_witness:
  "\<exists>k'. syscall_handler True bump_release example_cpu 1 0 0 0 0 0x444444441000
      \<lparr>screen = writer_new [], heap = fba_new (0x444444441000, [(0x444444440000, 0x1000)]) (\<lambda>_. None),
       scheduler = example_sched 3 1 [READY, RUNNING]\<rparr> =
     Some (Inr (Leave (Run (process (example_task 1 READY))) k'))"
proof -
  let ?k = "\<lparr>screen = writer_new [], heap = fba_new (0x444444441000, [(0x444444440000, 0x1000)]) (\<lambda>_. None),
       scheduler = example_sched 3 1 [READY, RUNNING]\<rparr>"
  obtain a where de: "delete_syscall_stack bump_release 0x444444441000 (heap ?k) = Inr a"
    by (simp add: delete_syscall_stack_def dealloc_def stack_layout_simps(2) STACK_SIZE_def)
  have n: "length (tasks (scheduler ?k)) = 2" "tasks (scheduler ?k) ! 0 = example_task 1 READY"
    "unat (current_task (scheduler ?k)) = 1" "Suc 1 mod 2 = (0 :: nat)" "state (example_task 1 READY) = READY"
    by (simp_all add: example_sched_def example_task_def upt_eval)
  show ?thesis
    using exit_syscall [of ?k, unfolded n, OF _ _ _ _ de, of True example_cpu 0 0 0 0] by auto
qed

end
