(* ===== verification/Async_Tasks.thy ===== *)
theory Async_Tasks
  imports Syscall
begin

text \<open>
  \<^verbatim>\<open>src/task.rs\<close>, \<^verbatim>\<open>src/task/executor.rs\<close> and \<^verbatim>\<open>src/task/keyboard.rs\<close>: the executor of asynchronous tasks, the stream of
  scancodes it serves, and the part of the keyboard interrupt that fills the stream. The last sections put
  the keyboard task, the executor's loop and the interrupts into one step relation.
\<close>

section \<open>Queues and wakers\<close>

text \<open>\<^verbatim>\<open>ArrayQueue\<close> of the crate \<^verbatim>\<open>crossbeam_queue\<close> and \<^verbatim>\<open>AtomicWaker\<close> of \<^verbatim>\<open>futures_util\<close>, with what they document: a bounded queue
  is a list of at most \<open>room\<close> items, and \<^verbatim>\<open>wake\<close> and \<^verbatim>\<open>take\<close> name the waker registered last. Whether
  that waker stays registered is left open.\<close>

record ('q, 'a) array_queue =
  aq_new :: "nat \<Rightarrow> 'q"
  aq_push :: "'a \<Rightarrow> 'q \<Rightarrow> bool \<times> 'q"
  aq_pop :: "'q \<Rightarrow> 'a option \<times> 'q"
  aq_is_empty :: "'q \<Rightarrow> bool"

definition array_queue_doc :: "('q, 'a) array_queue \<Rightarrow> ('q \<Rightarrow> 'a list) \<Rightarrow> ('q \<Rightarrow> nat) \<Rightarrow> bool" where
  "array_queue_doc Q items room \<longleftrightarrow>
     (\<forall>n > 0. items (aq_new Q n) = [] \<and> room (aq_new Q n) = n) \<and>
     (\<forall>x q. room (snd (aq_push Q x q)) = room q \<and> fst (aq_push Q x q) = (length (items q) < room q) \<and>
        items (snd (aq_push Q x q)) = (if length (items q) < room q then items q @ [x] else items q)) \<and>
     (\<forall>q. room (snd (aq_pop Q q)) = room q \<and> fst (aq_pop Q q) = (case items q of [] \<Rightarrow> None | x # xs \<Rightarrow> Some x) \<and>
        items (snd (aq_pop Q q)) = tl (items q)) \<and>
     (\<forall>q. aq_is_empty Q q \<longleftrightarrow> items q = [])"

record ('w, 'k) atomic_waker =
  aw_register :: "'k \<Rightarrow> 'w \<Rightarrow> 'w"
  aw_wake :: "'w \<Rightarrow> 'k option \<times> 'w"
  aw_take :: "'w \<Rightarrow> 'k option \<times> 'w"

definition atomic_waker_doc :: "('w, 'k) atomic_waker \<Rightarrow> ('w \<Rightarrow> 'k option) \<Rightarrow> bool" where
  "atomic_waker_doc W registered \<longleftrightarrow>
     (\<forall>k w. registered (aw_register W k w) = Some k) \<and>
     (\<forall>w. fst (aw_wake W w) = registered w \<and> registered (snd (aw_wake W w)) \<in> {None, registered w}) \<and>
     (\<forall>w. fst (aw_take W w) = registered w \<and> registered (snd (aw_take W w)) \<in> {None, registered w})"

section \<open>Tasks and the executor\<close>

definition TaskId_new :: "u64 \<Rightarrow> u64 \<times> u64" where
  "TaskId_new NEXT_ID = (NEXT_ID, NEXT_ID + 1)"

record 'fut Async_Task =
  t_id :: u64
  t_future :: 'fut

definition task_new :: "'fut \<Rightarrow> u64 \<Rightarrow> 'fut Async_Task \<times> u64" where
  "task_new fut NEXT_ID = (let (i, NEXT_ID) = TaskId_new NEXT_ID in (\<lparr>t_id = i, t_future = fut\<rparr>, NEXT_ID))"

definition TASK_QUEUE_SIZE :: nat where
  "TASK_QUEUE_SIZE = 100"

text \<open>A waker names its task; the queue it pushes to is the executor's.\<close>

datatype TaskWaker = TaskWaker (tw_task_id: u64)

record ('fut, 'q) Executor =
  ex_tasks :: "u64 \<rightharpoonup> 'fut Async_Task"
  task_queue :: 'q
  waker_cache :: "u64 \<rightharpoonup> TaskWaker"

definition executor_new :: "('q, u64) array_queue \<Rightarrow> ('fut, 'q) Executor" where
  "executor_new Q = \<lparr>ex_tasks = Map.empty, task_queue = aq_new Q TASK_QUEUE_SIZE, waker_cache = Map.empty\<rparr>"

definition executor_spawn :: "('q, u64) array_queue \<Rightarrow> 'fut Async_Task \<Rightarrow> ('fut, 'q) Executor \<Rightarrow> ('fut, 'q) Executor rust" where
  "executor_spawn Q task ex =
     (if ex_tasks ex (t_id task) \<noteq> None then Inl (ExplicitPanic ''Task with same ID already in tasks'')
      else let (ok, q) = aq_push Q (t_id task) (task_queue ex) in
        if ok then Inr (ex\<lparr>ex_tasks := (ex_tasks ex)(t_id task \<mapsto> task), task_queue := q\<rparr>)
        else Inl (UnwrapFailed ''Task queue full''))"

definition wake_task :: "('q, u64) array_queue \<Rightarrow> TaskWaker \<Rightarrow> 'q \<Rightarrow> 'q rust" where
  "wake_task Q waker q =
     (let (ok, q) = aq_push Q (tw_task_id waker) q in if ok then Inr q else Inl (UnwrapFailed ''task_queue full''))"

text \<open>
  \<open>poll\<close> is what polling a future does: it gets the task's waker and may change the task queue and the rest
  \<open>'x\<close> of the machine; the result says whether the future is finished. \<open>Inl\<close> is a panic.
\<close>

type_synonym ('fut, 'q, 'x) poll_fn = "TaskWaker \<Rightarrow> 'fut \<Rightarrow> 'q \<Rightarrow> 'x \<Rightarrow> (bool \<times> 'fut \<times> 'q \<times> 'x) rust"

definition poll_task :: "('fut, 'q, 'x) poll_fn \<Rightarrow> u64 \<Rightarrow> 'fut Async_Task \<Rightarrow> ('fut, 'q) Executor \<Rightarrow> 'x \<Rightarrow> (('fut, 'q) Executor \<times> 'x) rust" where
  "poll_task poll i task ex x =
     (let waker = (case waker_cache ex i of None \<Rightarrow> TaskWaker i | Some w \<Rightarrow> w);
          ex = ex\<lparr>waker_cache := (waker_cache ex)(i \<mapsto> waker)\<rparr> in
      bindE (poll waker (t_future task) (task_queue ex) x) (\<lambda>(ready, fut, q, x).
      Inr (if ready then ex\<lparr>ex_tasks := (ex_tasks ex)(i := None), task_queue := q, waker_cache := (waker_cache ex)(i := None)\<rparr>
           else ex\<lparr>ex_tasks := (ex_tasks ex)(i \<mapsto> task\<lparr>t_future := fut\<rparr>), task_queue := q\<rparr>, x)))"

partial_function (option) run_ready_tasks ::
  "('q, u64) array_queue \<Rightarrow> ('fut, 'q, 'x) poll_fn \<Rightarrow> ('fut, 'q) Executor \<Rightarrow> 'x \<Rightarrow> (('fut, 'q) Executor \<times> 'x) rust option" where
  "run_ready_tasks Q poll ex x =
     (case aq_pop Q (task_queue ex) of
        (None, q) \<Rightarrow> Some (Inr (ex\<lparr>task_queue := q\<rparr>, x))
      | (Some i, q) \<Rightarrow>
          (case ex_tasks ex i of
             None \<Rightarrow> run_ready_tasks Q poll (ex\<lparr>task_queue := q\<rparr>) x
           | Some task \<Rightarrow>
               (case poll_task poll i task (ex\<lparr>task_queue := q\<rparr>) x of
                  Inl e \<Rightarrow> Some (Inl e)
                | Inr (ex, x) \<Rightarrow> run_ready_tasks Q poll ex x)))"

datatype idle_result = Halts | Continues

definition sleep_if_idle :: "('q, u64) array_queue \<Rightarrow> ('fut, 'q) Executor \<Rightarrow> idle_result" where
  "sleep_if_idle Q ex = (if aq_is_empty Q (task_queue ex) then Halts else Continues)"

section \<open>Scancodes\<close>

definition QUEUE_SIZE :: nat where
  "QUEUE_SIZE = 100"

record ('s, 'w) keyboard =
  SCANCODE_QUEUE :: "'s option"
  WAKER :: 'w

text \<open>The interrupt's part: the task queue is where a woken waker puts its task, the screen where warnings go.\<close>

definition add_scancode ::
  "('s, u8) array_queue \<Rightarrow> ('w, TaskWaker) atomic_waker \<Rightarrow> ('q, u64) array_queue \<Rightarrow> u8 \<Rightarrow>
   ('s, 'w) keyboard \<Rightarrow> 'q \<Rightarrow> writer \<Rightarrow> (('s, 'w) keyboard \<times> 'q \<times> writer) rust" where
  "add_scancode S W Q scancode kb tq scr =
     (case SCANCODE_QUEUE kb of
        Some queue \<Rightarrow>
          (let (ok, queue) = aq_push S scancode queue; kb = kb\<lparr>SCANCODE_QUEUE := Some queue\<rparr> in
           if \<not> ok then bindE (vga_print [ascii ''WARNING: scancode queue is full; input dropped'', [0x0A]] scr) (\<lambda>scr. Inr (kb, tq, scr))
           else let (waker, w) = aw_wake W (WAKER kb); kb = kb\<lparr>WAKER := w\<rparr> in
             (case waker of
                None \<Rightarrow> Inr (kb, tq, scr)
              | Some waker \<Rightarrow> bindE (wake_task Q waker tq) (\<lambda>tq. Inr (kb, tq, scr))))
      | None \<Rightarrow> bindE (vga_print [ascii ''WARNING: scancode queue is uninitialized'', [0x0A]] scr) (\<lambda>scr. Inr (kb, tq, scr)))"

definition ScancodeStream_new :: "('s, u8) array_queue \<Rightarrow> ('s, 'w) keyboard \<Rightarrow> ('s, 'w) keyboard rust" where
  "ScancodeStream_new S kb =
     (case SCANCODE_QUEUE kb of
        None \<Rightarrow> Inr (kb\<lparr>SCANCODE_QUEUE := Some (aq_new S QUEUE_SIZE)\<rparr>)
      | Some _ \<Rightarrow> Inl (UnwrapFailed ''Scancode stream already initialized''))"

datatype 'a Poll = Ready 'a | Pending

definition poll_next ::
  "('s, u8) array_queue \<Rightarrow> ('w, TaskWaker) atomic_waker \<Rightarrow> TaskWaker \<Rightarrow> ('s, 'w) keyboard \<Rightarrow> (u8 option Poll \<times> ('s, 'w) keyboard) rust" where
  "poll_next S W waker kb =
     bindE (expect ''Scancode stream not initialized'' (SCANCODE_QUEUE kb)) (\<lambda>queue.
     let (r, queue) = aq_pop S queue; kb = kb\<lparr>SCANCODE_QUEUE := Some queue\<rparr> in
     case r of Some scancode \<Rightarrow> Inr (Ready (Some scancode), kb)
     | None \<Rightarrow>
         let kb = kb\<lparr>WAKER := aw_register W waker (WAKER kb)\<rparr>;
             (r, queue) = aq_pop S queue; kb = kb\<lparr>SCANCODE_QUEUE := Some queue\<rparr> in
         case r of Some scancode \<Rightarrow> Inr (Ready (Some scancode), kb\<lparr>WAKER := snd (aw_take W (WAKER kb))\<rparr>)
         | None \<Rightarrow> Inr (Pending, kb))"

section \<open>Facts about queues\<close>

lemma aq_push_eq:
  assumes "array_queue_doc Q items room"
  shows "\<exists>q'. aq_push Q x q = (length (items q) < room q, q') \<and> room q' = room q \<and>
    items q' = (if length (items q) < room q then items q @ [x] else items q)"
  using assms unfolding array_queue_doc_def by (intro exI [of _ "snd (aq_push Q x q)"]) (simp add: prod_eq_iff)

lemma aq_pop_eq:
  assumes "array_queue_doc Q items room"
  shows "\<exists>q'. aq_pop Q q = (case items q of [] \<Rightarrow> None | x # xs \<Rightarrow> Some x, q') \<and> room q' = room q \<and> items q' = tl (items q)"
  using assms unfolding array_queue_doc_def by (metis prod.collapse)

lemma aq_is_empty_eq: "array_queue_doc Q items room \<Longrightarrow> aq_is_empty Q q \<longleftrightarrow> items q = []"
  by (simp add: array_queue_doc_def)

lemma aq_new_eq: "array_queue_doc Q items room \<Longrightarrow> 0 < n \<Longrightarrow> items (aq_new Q n) = [] \<and> room (aq_new Q n) = n"
  by (simp add: array_queue_doc_def)

section \<open>The executor polls in order\<close>

text \<open>The reference: poll the tasks of the list one after the other, skip those that are gone, and drop those that
  finish. \<open>p\<close> polls a future without waking a task.\<close>

fun poll_in_order ::
  "(TaskWaker \<Rightarrow> 'fut \<Rightarrow> 'x \<Rightarrow> (bool \<times> 'fut \<times> 'x) rust) \<Rightarrow> u64 list \<Rightarrow> (u64 \<rightharpoonup> 'fut Async_Task) \<Rightarrow> 'x \<Rightarrow> ((u64 \<rightharpoonup> 'fut Async_Task) \<times> 'x) rust" where
  "poll_in_order p [] ts x = Inr (ts, x)"
| "poll_in_order p (i # ids) ts x =
     (case ts i of
        None \<Rightarrow> poll_in_order p ids ts x
      | Some task \<Rightarrow> bindE (p (TaskWaker i) (t_future task) x) (\<lambda>(ready, fut, x).
          poll_in_order p ids (if ready then ts(i := None) else ts(i \<mapsto> task\<lparr>t_future := fut\<rparr>)) x))"

definition cache_ok :: "('fut, 'q) Executor \<Rightarrow> bool" where
  "cache_ok ex \<longleftrightarrow> (\<forall>i w. waker_cache ex i = Some w \<longrightarrow> w = TaskWaker i \<and> ex_tasks ex i \<noteq> None)"

definition quiet :: "(TaskWaker \<Rightarrow> 'fut \<Rightarrow> 'x \<Rightarrow> (bool \<times> 'fut \<times> 'x) rust) \<Rightarrow> ('fut, 'q, 'x) poll_fn" where
  "quiet p w fut q x = bindE (p w fut x) (\<lambda>(ready, fut, x). Inr (ready, fut, q, x))"

lemma poll_task_quiet:
  assumes "cache_ok ex" and "ex_tasks ex i = Some task"
  shows "case p (TaskWaker i) (t_future task) x of
      Inl e \<Rightarrow> poll_task (quiet p) i task ex x = Inl e
    | Inr (ready, fut, x') \<Rightarrow> \<exists>ex'. poll_task (quiet p) i task ex x = Inr (ex', x') \<and> cache_ok ex' \<and> task_queue ex' = task_queue ex \<and>
        ex_tasks ex' = (if ready then (ex_tasks ex)(i := None) else (ex_tasks ex)(i \<mapsto> task\<lparr>t_future := fut\<rparr>))"
proof -
  have w: "(case waker_cache ex i of None \<Rightarrow> TaskWaker i | Some w \<Rightarrow> w) = TaskWaker i"
    using assms(1) by (auto simp: cache_ok_def split: option.splits)
  show ?thesis
    using assms unfolding poll_task_def w quiet_def
    by (cases "p (TaskWaker i) (t_future task) x") (auto simp: cache_ok_def Let_def split: prod.splits if_splits)
qed

lemma run_ready_tasks_order:
  assumes "array_queue_doc Q items room"
  shows "cache_ok ex \<Longrightarrow> items (task_queue ex) = ids \<Longrightarrow>
    case poll_in_order p ids (ex_tasks ex) x of
      Inl e \<Rightarrow> run_ready_tasks Q (quiet p) ex x = Some (Inl e)
    | Inr (ts, x') \<Rightarrow> \<exists>ex'. run_ready_tasks Q (quiet p) ex x = Some (Inr (ex', x')) \<and> ex_tasks ex' = ts \<and> items (task_queue ex') = [] \<and> cache_ok ex'"
proof (induction ids arbitrary: ex x)
  case Nil
  obtain q where "aq_pop Q (task_queue ex) = (None, q)" "items q = []" using aq_pop_eq [OF assms, of "task_queue ex"] Nil by auto
  then show ?case using Nil by (subst run_ready_tasks.simps) (simp add: cache_ok_def)
next
  case (Cons i ids)
  obtain q where q: "aq_pop Q (task_queue ex) = (Some i, q)" "items q = ids" using aq_pop_eq [OF assms, of "task_queue ex"] Cons.prems by auto
  let ?ex = "ex\<lparr>task_queue := q\<rparr>"
  have ok: "cache_ok ?ex" using Cons.prems(1) by (simp add: cache_ok_def)
  show ?case
  proof (cases "ex_tasks ex i")
    case None
    then have "run_ready_tasks Q (quiet p) ex x = run_ready_tasks Q (quiet p) ?ex x" using q(1) by (subst run_ready_tasks.simps) simp
    then show ?thesis using Cons.IH [OF ok, of x] q(2) None by (simp only: poll_in_order.simps option.case) simp
  next
    case (Some task)
    then have "ex_tasks ?ex i = Some task" by simp
    note pt = poll_task_quiet [OF ok this, of p x]
    have run: "run_ready_tasks Q (quiet p) ex x = (case poll_task (quiet p) i task ?ex x of Inl e \<Rightarrow> Some (Inl e) | Inr (ex, x) \<Rightarrow> run_ready_tasks Q (quiet p) ex x)"
      using q(1) Some by (subst run_ready_tasks.simps) simp
    show ?thesis
    proof (cases "p (TaskWaker i) (t_future task) x")
      case (Inl e)
      then show ?thesis using pt run Some by simp
    next
      case (Inr r)
      obtain ready fut x' where r: "r = (ready, fut, x')" by (cases r)
      then obtain ex' where ex': "poll_task (quiet p) i task ?ex x = Inr (ex', x')" "cache_ok ex'" "task_queue ex' = q"
        "ex_tasks ex' = (if ready then (ex_tasks ex)(i := None) else (ex_tasks ex)(i \<mapsto> task\<lparr>t_future := fut\<rparr>))"
        using pt Inr by auto
      have "poll_in_order p (i # ids) (ex_tasks ex) x = poll_in_order p ids (ex_tasks ex') x'" using Some Inr r ex'(4) by simp
      moreover have "run_ready_tasks Q (quiet p) ex x = run_ready_tasks Q (quiet p) ex' x'" using run ex'(1) by simp
      ultimately show ?thesis using Cons.IH [OF ex'(2), of x'] ex'(3) q(2) by (simp only: HOL.refl)
    qed
  qed
qed

section \<open>Keyboard task, executor and interrupts\<close>

text \<open>
  One processor runs \<^verbatim>\<open>Executor::run\<close> with the task of \<^verbatim>\<open>print_keypresses\<close>, whose identifier is \<open>t\<close>; an interrupt may come between
  any two accesses to shared data while interrupts are enabled. \<open>pc\<close> is the next access:
  \<^item> \<open>Pop_Task\<close>: \<^verbatim>\<open>task_queue.pop()\<close> in \<^verbatim>\<open>run_ready_tasks\<close>;
  \<^item> \<open>Pop_1\<close>, \<open>Register\<close>, \<open>Pop_2\<close>, \<open>Take\<close>: the statements of \<^verbatim>\<open>poll_next\<close>; a scancode it returns is consumed and \<^verbatim>\<open>next\<close> polls again;
  \<^item> \<open>Disable\<close>, \<open>Check\<close>, \<open>Enable\<close>, \<open>Enable_Hlt\<close>: the statements of \<^verbatim>\<open>sleep_if_idle\<close>; \<open>Halted\<close>: in \<^verbatim>\<open>hlt\<close> until the next interrupt.
  \<open>accepted\<close> are the scancodes the queue took, \<open>received\<close> those the task got.
\<close>

datatype pc = Pop_Task | Pop_1 | Register | Pop_2 | Take u8 | Disable | Check | Enable | Enable_Hlt | Halted

record ('s, 'w, 'q) sys =
  kb_queue :: 's
  kb_waker :: 'w
  ready_queue :: 'q
  sys_screen :: writer
  sys_pc :: pc
  accepted :: "u8 list"
  received :: "u8 list"

record ('s, 'w, 'q) sys_crates =
  c_scancodes :: "('s, u8) array_queue"
  c_waker :: "('w, TaskWaker) atomic_waker"
  c_tasks :: "('q, u64) array_queue"

definition interrupts_on :: "pc \<Rightarrow> bool" where
  "interrupts_on p \<longleftrightarrow> p \<notin> {Check, Enable, Enable_Hlt}"

fun cpu_step :: "('s, 'w, 'q) sys_crates \<Rightarrow> u64 \<Rightarrow> pc \<Rightarrow> ('s, 'w, 'q) sys \<Rightarrow> ('s, 'w, 'q) sys" where
  "cpu_step C t Pop_Task s =
     (case aq_pop (c_tasks C) (ready_queue s) of
        (None, q) \<Rightarrow> s\<lparr>ready_queue := q, sys_pc := Disable\<rparr>
      | (Some i, q) \<Rightarrow> s\<lparr>ready_queue := q, sys_pc := if i = t then Pop_1 else Pop_Task\<rparr>)"
| "cpu_step C t Pop_1 s =
     (case aq_pop (c_scancodes C) (kb_queue s) of
        (Some c, q) \<Rightarrow> s\<lparr>kb_queue := q, received := received s @ [c], sys_pc := Pop_1\<rparr>
      | (None, q) \<Rightarrow> s\<lparr>kb_queue := q, sys_pc := Register\<rparr>)"
| "cpu_step C t Register s = s\<lparr>kb_waker := aw_register (c_waker C) (TaskWaker t) (kb_waker s), sys_pc := Pop_2\<rparr>"
| "cpu_step C t Pop_2 s =
     (case aq_pop (c_scancodes C) (kb_queue s) of
        (Some c, q) \<Rightarrow> s\<lparr>kb_queue := q, sys_pc := Take c\<rparr>
      | (None, q) \<Rightarrow> s\<lparr>kb_queue := q, sys_pc := Pop_Task\<rparr>)"
| "cpu_step C t (Take c) s = s\<lparr>kb_waker := snd (aw_take (c_waker C) (kb_waker s)), received := received s @ [c], sys_pc := Pop_1\<rparr>"
| "cpu_step C t Disable s = s\<lparr>sys_pc := Check\<rparr>"
| "cpu_step C t Check s = s\<lparr>sys_pc := if aq_is_empty (c_tasks C) (ready_queue s) then Enable_Hlt else Enable\<rparr>"
| "cpu_step C t Enable s = s\<lparr>sys_pc := Pop_Task\<rparr>"
| "cpu_step C t Enable_Hlt s = s\<lparr>sys_pc := Halted\<rparr>"
| "cpu_step C t Halted s = s"

abbreviation step_of :: "('s, 'w, 'q) sys_crates \<Rightarrow> u64 \<Rightarrow> ('s, 'w, 'q) sys \<Rightarrow> ('s, 'w, 'q) sys" where
  "step_of C t s \<equiv> cpu_step C t (sys_pc s) s"

text \<open>A key press: the interrupt handler calls \<^verbatim>\<open>add_scancode\<close>; \<^verbatim>\<open>hlt\<close> returns into the executor's loop.\<close>

definition key_press :: "('s, 'w, 'q) sys_crates \<Rightarrow> u8 \<Rightarrow> ('s, 'w, 'q) sys \<Rightarrow> ('s, 'w, 'q) sys rust" where
  "key_press C code s =
     bindE (add_scancode (c_scancodes C) (c_waker C) (c_tasks C) code
         \<lparr>SCANCODE_QUEUE = Some (kb_queue s), WAKER = kb_waker s\<rparr> (ready_queue s) (sys_screen s)) (\<lambda>(kb, tq, scr).
     Inr (s\<lparr>kb_queue := the (SCANCODE_QUEUE kb), kb_waker := WAKER kb, ready_queue := tq, sys_screen := scr,
       sys_pc := if sys_pc s = Halted then Pop_Task else sys_pc s,
       accepted := accepted s @ (if fst (aq_push (c_scancodes C) code (kb_queue s)) then [code] else [])\<rparr>))"

text \<open>The task has been spawned and its stream created.\<close>

definition sys_start :: "('s, 'w, 'q) sys_crates \<Rightarrow> u64 \<Rightarrow> 'w \<Rightarrow> writer \<Rightarrow> ('s, 'w, 'q) sys" where
  "sys_start C t w scr =
     \<lparr>kb_queue = aq_new (c_scancodes C) QUEUE_SIZE, kb_waker = w, ready_queue = snd (aq_push (c_tasks C) t (aq_new (c_tasks C) TASK_QUEUE_SIZE)),
      sys_screen = scr, sys_pc = Pop_Task, accepted = [], received = []\<rparr>"

inductive sys_reach :: "('s, 'w, 'q) sys_crates \<Rightarrow> u64 \<Rightarrow> 'w \<Rightarrow> writer \<Rightarrow> ('s, 'w, 'q) sys \<Rightarrow> bool" for C t w scr where
  sys_init: "sys_reach C t w scr (sys_start C t w scr)"
| sys_cpu: "sys_reach C t w scr s \<Longrightarrow> sys_reach C t w scr (step_of C t s)"
| sys_key: "sys_reach C t w scr s \<Longrightarrow> interrupts_on (sys_pc s) \<Longrightarrow> key_press C code s = Inr s' \<Longrightarrow> sys_reach C t w scr s'"

definition sys_doc :: "('s, 'w, 'q) sys_crates \<Rightarrow> ('s \<Rightarrow> u8 list) \<Rightarrow> ('s \<Rightarrow> nat) \<Rightarrow> ('w \<Rightarrow> TaskWaker option) \<Rightarrow> ('q \<Rightarrow> u64 list) \<Rightarrow> ('q \<Rightarrow> nat) \<Rightarrow> bool" where
  "sys_doc C codes room registered ids slots \<longleftrightarrow>
     array_queue_doc (c_scancodes C) codes room \<and> atomic_waker_doc (c_waker C) registered \<and> array_queue_doc (c_tasks C) ids slots"

text \<open>While the task is not being polled, it is registered or queued; if scancodes wait for it, it is queued.\<close>

definition taken :: "pc \<Rightarrow> u8 list" where
  "taken p = (case p of Take c \<Rightarrow> [c] | _ \<Rightarrow> [])"

definition polling :: "pc \<Rightarrow> bool" where
  "polling p \<longleftrightarrow> (case p of Pop_1 \<Rightarrow> True | Register \<Rightarrow> True | Take _ \<Rightarrow> True | Pop_2 \<Rightarrow> True | _ \<Rightarrow> False)"

definition sys_inv :: "('s \<Rightarrow> u8 list) \<Rightarrow> ('w \<Rightarrow> TaskWaker option) \<Rightarrow> ('q \<Rightarrow> u64 list) \<Rightarrow> u64 \<Rightarrow> ('s, 'w, 'q) sys \<Rightarrow> bool" where
  "sys_inv codes registered ids t s \<longleftrightarrow>
     received s @ taken (sys_pc s) @ codes (kb_queue s) = accepted s \<and>
     registered (kb_waker s) \<in> {None, Some (TaskWaker t)} \<and>
     (sys_pc s = Pop_2 \<or> \<not> polling (sys_pc s) \<longrightarrow> registered (kb_waker s) \<noteq> None \<or> t \<in> set (ids (ready_queue s))) \<and>
     (\<not> polling (sys_pc s) \<and> codes (kb_queue s) \<noteq> [] \<longrightarrow> t \<in> set (ids (ready_queue s))) \<and>
     (sys_pc s \<in> {Enable_Hlt, Halted} \<longrightarrow> ids (ready_queue s) = [])"

lemma queue_cases:
  assumes "array_queue_doc Q items room"
  obtains (Empty) q' where "aq_pop Q q = (None, q')" "items q = []" "items q' = []" "room q' = room q"
  | (Item) x q' where "aq_pop Q q = (Some x, q')" "items q = x # items q'" "room q' = room q"
  using aq_pop_eq [OF assms, of q] by (cases "items q") auto

lemmas sys_inv_simps = sys_inv_def taken_def polling_def

lemma sys_inv_start:
  assumes "sys_doc C codes room registered ids slots" and "registered w = None"
  shows "sys_inv codes registered ids t (sys_start C t w scr)"
proof -
  let ?q = "aq_new (c_tasks C) TASK_QUEUE_SIZE"
  have "ids ?q = [] \<and> slots ?q = 100" using assms(1) aq_new_eq [of "c_tasks C" ids slots 100] by (simp add: sys_doc_def TASK_QUEUE_SIZE_def)
  then have "ids (snd (aq_push (c_tasks C) t ?q)) = [t]" using assms(1) aq_push_eq [of "c_tasks C" ids slots t ?q] by (auto simp: sys_doc_def)
  then show ?thesis
    using assms aq_new_eq [of "c_scancodes C" codes room 100] by (simp add: sys_inv_simps sys_start_def sys_doc_def QUEUE_SIZE_def)
qed

lemma sys_inv_cpu:
  assumes "sys_doc C codes room registered ids slots" and inv: "sys_inv codes registered ids t s"
  shows "sys_inv codes registered ids t (step_of C t s)"
proof -
  have S: "array_queue_doc (c_scancodes C) codes room" and W: "atomic_waker_doc (c_waker C) registered" and Q: "array_queue_doc (c_tasks C) ids slots"
    using assms(1) by (simp_all add: sys_doc_def)
  show ?thesis
  proof (cases "sys_pc s")
    case Pop_Task
    show ?thesis using inv Pop_Task by (cases rule: queue_cases [OF Q, of "ready_queue s"]) (auto simp: sys_inv_simps)
  next
    case Pop_1
    show ?thesis using inv Pop_1 by (cases rule: queue_cases [OF S, of "kb_queue s"]) (auto simp: sys_inv_simps)
  next
    case Pop_2
    show ?thesis using inv Pop_2 by (cases rule: queue_cases [OF S, of "kb_queue s"]) (auto simp: sys_inv_simps)
  next
    case Register
    then show ?thesis using inv W by (auto simp: sys_inv_simps atomic_waker_doc_def)
  next
    case (Take c)
    have "registered (snd (aw_take (c_waker C) (kb_waker s))) \<in> {None, registered (kb_waker s)}" using W by (simp add: atomic_waker_doc_def)
    then show ?thesis using inv Take by (auto simp: sys_inv_simps)
  next
    case Check
    then show ?thesis using inv aq_is_empty_eq [OF Q] by (auto simp: sys_inv_simps)
  qed (use inv in \<open>auto simp: sys_inv_simps\<close>)
qed

text \<open>What \<^verbatim>\<open>add_scancode\<close> does to the queues when it returns.\<close>

lemma key_press_effect:
  assumes "sys_doc C codes room registered ids slots" and "key_press C code s = Inr s'"
  shows "received s' = received s \<and> sys_pc s' = (if sys_pc s = Halted then Pop_Task else sys_pc s) \<and>
    (codes (kb_queue s') = codes (kb_queue s) \<and> accepted s' = accepted s \<and> kb_waker s' = kb_waker s \<and> ready_queue s' = ready_queue s \<or>
     codes (kb_queue s') = codes (kb_queue s) @ [code] \<and> accepted s' = accepted s @ [code] \<and>
     registered (kb_waker s') \<in> {None, registered (kb_waker s)} \<and>
     ids (ready_queue s') = ids (ready_queue s) @ (case registered (kb_waker s) of None \<Rightarrow> [] | Some w \<Rightarrow> [tw_task_id w]))"
proof -
  have S: "array_queue_doc (c_scancodes C) codes room" and W: "atomic_waker_doc (c_waker C) registered" and Q: "array_queue_doc (c_tasks C) ids slots"
    using assms(1) by (simp_all add: sys_doc_def)
  obtain q' where q': "aq_push (c_scancodes C) code (kb_queue s) = (length (codes (kb_queue s)) < room (kb_queue s), q')"
    "codes q' = (if length (codes (kb_queue s)) < room (kb_queue s) then codes (kb_queue s) @ [code] else codes (kb_queue s))"
    using aq_push_eq [OF S, of code "kb_queue s"] by blast
  obtain w' where w': "aw_wake (c_waker C) (kb_waker s) = (registered (kb_waker s), w')" "registered w' \<in> {None, registered (kb_waker s)}"
    using W unfolding atomic_waker_doc_def by (metis prod.collapse)
  have wake: "ids tq = ids (ready_queue s) @ [tw_task_id wk]" if "wake_task (c_tasks C) wk (ready_queue s) = Inr tq" for wk tq
    using that aq_push_eq [OF Q, of "tw_task_id wk" "ready_queue s"] by (auto simp: wake_task_def split: if_splits)
  show ?thesis
  proof (cases "length (codes (kb_queue s)) < room (kb_queue s)")
    case False
    then show ?thesis using assms(2) q' by (auto simp: key_press_def add_scancode_def Let_def elim!: bindE_InrE)
  next
    case True
    then show ?thesis using assms(2) q' w' wake
      by (cases "registered (kb_waker s)") (auto simp: key_press_def add_scancode_def Let_def elim!: bindE_InrE)
  qed
qed

lemma sys_inv_key:
  assumes "sys_doc C codes room registered ids slots" and "sys_inv codes registered ids t s" and "interrupts_on (sys_pc s)"
    and "key_press C code s = Inr s'"
  shows "sys_inv codes registered ids t s'"
  using key_press_effect [OF assms(1,4)] assms(2,3)
  by (cases "sys_pc s") (auto simp: sys_inv_simps interrupts_on_def split: option.splits if_splits)

lemma sys_inv_reach:
  assumes "sys_reach C t w scr s" and "sys_doc C codes room registered ids slots" and "registered w = None"
  shows "sys_inv codes registered ids t s"
  using assms
proof (induction rule: sys_reach.induct)
  case sys_init
  then show ?case by (rule sys_inv_start)
next
  case (sys_cpu s)
  then show ?case using sys_inv_cpu by blast
next
  case (sys_key s code s')
  then show ?case using sys_inv_key by blast
qed

text \<open>Without further key presses the processor comes to rest: each step makes this number smaller.\<close>

fun pc_rank :: "bool \<Rightarrow> pc \<Rightarrow> nat" where
  "pc_rank e Halted = 0"
| "pc_rank e Enable_Hlt = 1"
| "pc_rank e Check = (if e then 2 else 3)"
| "pc_rank e Disable = (if e then 3 else 4)"
| "pc_rank e Pop_Task = (if e then 4 else 1)"
| "pc_rank e Enable = (if e then 5 else 2)"
| "pc_rank e Pop_2 = 5"
| "pc_rank e Register = 6"
| "pc_rank e Pop_1 = 7"
| "pc_rank e (Take c) = 8"

definition sys_measure :: "('s \<Rightarrow> u8 list) \<Rightarrow> ('q \<Rightarrow> u64 list) \<Rightarrow> ('s, 'w, 'q) sys \<Rightarrow> nat" where
  "sys_measure codes ids s = 20 * length (ids (ready_queue s)) + 10 * length (codes (kb_queue s)) + pc_rank (ids (ready_queue s) = []) (sys_pc s)"

lemma step_accepted: "accepted (step_of C t s) = accepted s"
  by (cases "sys_pc s") (auto split: prod.splits option.splits)

lemma step_decreases:
  assumes "sys_doc C codes room registered ids slots" and "sys_inv codes registered ids t s" and "sys_pc s \<noteq> Halted"
  shows "sys_measure codes ids (step_of C t s) < sys_measure codes ids s"
proof -
  have S: "array_queue_doc (c_scancodes C) codes room" and Q: "array_queue_doc (c_tasks C) ids slots"
    using assms(1) by (simp_all add: sys_doc_def)
  show ?thesis
  proof (cases "sys_pc s")
    case Pop_Task
    show ?thesis using Pop_Task by (cases rule: queue_cases [OF Q, of "ready_queue s"]) (auto simp: sys_measure_def)
  next
    case Pop_1
    show ?thesis using Pop_1 by (cases rule: queue_cases [OF S, of "kb_queue s"]) (auto simp: sys_measure_def)
  next
    case Pop_2
    show ?thesis using Pop_2 by (cases rule: queue_cases [OF S, of "kb_queue s"]) (auto simp: sys_measure_def)
  qed (use assms(2,3) aq_is_empty_eq [OF Q] in \<open>auto simp: sys_measure_def sys_inv_def\<close>)
qed

definition sys_run :: "('s, 'w, 'q) sys_crates \<Rightarrow> u64 \<Rightarrow> nat \<Rightarrow> ('s, 'w, 'q) sys \<Rightarrow> ('s, 'w, 'q) sys" where
  "sys_run C t n = (\<lambda>s. step_of C t s) ^^ n"

lemma sys_comes_to_rest:
  assumes "sys_doc C codes room registered ids slots"
  shows "sys_inv codes registered ids t s \<Longrightarrow>
    \<exists>n. sys_pc (sys_run C t n s) = Halted \<and> sys_inv codes registered ids t (sys_run C t n s) \<and> accepted (sys_run C t n s) = accepted s"
proof (induction "sys_measure codes ids s" arbitrary: s rule: less_induct)
  case less
  show ?case
  proof (cases "sys_pc s = Halted")
    case True
    then show ?thesis using less.prems by (intro exI [of _ 0]) (simp add: sys_run_def)
  next
    case False
    note d = step_decreases [OF assms less.prems False] and i = sys_inv_cpu [OF assms less.prems]
    from less.hyps [OF d i] obtain n where "sys_pc (sys_run C t n (step_of C t s)) = Halted"
      "sys_inv codes registered ids t (sys_run C t n (step_of C t s))" "accepted (sys_run C t n (step_of C t s)) = accepted s"
      unfolding step_accepted by blast
    moreover have "sys_run C t n (step_of C t s) = sys_run C t (Suc n) s" unfolding sys_run_def funpow_Suc_right comp_apply ..
    ultimately show ?thesis by metis
  qed
qed

text \<open>Without interrupts in between, the steps of the machine are \<^verbatim>\<open>poll_next\<close>.\<close>

lemma poll_next_steps:
  assumes "sys_doc C codes room registered ids slots" and "sys_pc s = Pop_1"
  shows "\<exists>n r q w. poll_next (c_scancodes C) (c_waker C) (TaskWaker t) \<lparr>SCANCODE_QUEUE = Some (kb_queue s), WAKER = kb_waker s\<rparr> =
      Inr (r, \<lparr>SCANCODE_QUEUE = Some q, WAKER = w\<rparr>) \<and>
    sys_run C t n s = s\<lparr>kb_queue := q, kb_waker := w,
      received := received s @ (case r of Ready (Some c) \<Rightarrow> [c] | _ \<Rightarrow> []), sys_pc := case r of Pending \<Rightarrow> Pop_Task | _ \<Rightarrow> Pop_1\<rparr>"
proof -
  have S: "array_queue_doc (c_scancodes C) codes room" using assms(1) by (simp add: sys_doc_def)
  consider (code) x q where "aq_pop (c_scancodes C) (kb_queue s) = (Some x, q)"
    | (none) q1 q2 where "aq_pop (c_scancodes C) (kb_queue s) = (None, q1)" "aq_pop (c_scancodes C) q1 = (None, q2)"
    by (metis queue_cases [OF S] list.distinct(1))
  then show ?thesis
  proof cases
    case code
    then show ?thesis using assms(2)
      by (intro exI [of _ 1] exI [of _ "Ready (Some x)"] exI [of _ q] exI [of _ "kb_waker s"]) (simp add: poll_next_def expect_def sys_run_def)
  next
    case none
    then show ?thesis using assms(2)
      by (intro exI [of _ 3] exI [of _ Pending] exI [of _ q2] exI [of _ "aw_register (c_waker C) (TaskWaker t) (kb_waker s)"])
        (simp add: poll_next_def expect_def sys_run_def numeral_3_eq_3 Let_def)
  qed
qed

section \<open>Properties\<close>

text \<open>C3: The keyboard loses no wakeup. In every interleaving of key presses with the executor and the keyboard task, the task has
  received a prefix of the scancodes the queue took, in order; when the processor halts it has received all of
  them; and if no further key is pressed the processor comes to halt after finitely many steps.\<close>

theorem keyboard_no_lost_wakeup:
  assumes "sys_doc C codes room registered ids slots" and "registered w = None" and "sys_reach C t w scr s"
  shows "prefix (received s) (accepted s) \<and> (sys_pc s = Halted \<longrightarrow> received s = accepted s) \<and>
    (\<exists>n. sys_pc (sys_run C t n s) = Halted \<and> received (sys_run C t n s) = accepted s)"
proof -
  note inv = sys_inv_reach [OF assms(3,1,2)]
  have halted: "received s = accepted s" if "sys_inv codes registered ids t s" "sys_pc s = Halted" for s
    using that by (auto simp: sys_inv_simps)
  have "prefix (received s) (accepted s)" by (rule prefixI [OF inv [unfolded sys_inv_def, THEN conjunct1, symmetric]])
  moreover obtain n where n: "sys_pc (sys_run C t n s) = Halted" "sys_inv codes registered ids t (sys_run C t n s)" "accepted (sys_run C t n s) = accepted s"
    using sys_comes_to_rest [OF assms(1) inv] by blast
  then have "\<exists>n. sys_pc (sys_run C t n s) = Halted \<and> received (sys_run C t n s) = accepted s" using halted [OF n(2,1)] by auto
  ultimately show ?thesis using halted [OF inv] by blast
qed

definition list_queue :: "(nat \<times> 'a list, 'a) array_queue" where
  "list_queue = \<lparr>aq_new = (\<lambda>n. (n, [])), aq_push = (\<lambda>x (n, xs). if length xs < n then (True, n, xs @ [x]) else (False, n, xs)),
     aq_pop = (\<lambda>(n, xs). case xs of [] \<Rightarrow> (None, n, []) | x # xs \<Rightarrow> (Some x, n, xs)), aq_is_empty = (\<lambda>(n, xs). xs = [])\<rparr>"

definition list_crates :: "(nat \<times> u8 list, TaskWaker option, nat \<times> u64 list) sys_crates" where
  "list_crates = \<lparr>c_scancodes = list_queue, c_waker = \<lparr>aw_register = (\<lambda>k w. Some k), aw_wake = (\<lambda>w. (w, None)), aw_take = (\<lambda>w. (w, None))\<rparr>,
     c_tasks = list_queue\<rparr>"

lemma list_queue_doc: "array_queue_doc list_queue snd fst"
  by (auto simp: array_queue_doc_def list_queue_def split: list.splits)

lemma list_waker_doc: "atomic_waker_doc (c_waker list_crates) id"
  by (simp add: list_crates_def atomic_waker_doc_def)

lemma list_crates_doc: "sys_doc list_crates snd fst id snd fst"
  using list_waker_doc by (simp add: sys_doc_def list_queue_doc) (simp add: list_crates_def list_queue_doc)

theorem keyboard_no_lost_wakeup_witness:
  "\<exists>s n. key_press list_crates 0x1E (sys_start list_crates 5 None (writer_new [])) = Inr s \<and>
     sys_pc (sys_run list_crates 5 n s) = Halted \<and> received (sys_run list_crates 5 n s) = [0x1E]"
proof -
  let ?s = "sys_start list_crates 5 None (writer_new [])"
  obtain s where s: "key_press list_crates 0x1E ?s = Inr s" "accepted s = [0x1E]"
    by (simp add: key_press_def add_scancode_def sys_start_def list_crates_def list_queue_def QUEUE_SIZE_def TASK_QUEUE_SIZE_def)
  have "interrupts_on (sys_pc ?s)" by (simp add: interrupts_on_def sys_start_def)
  from sys_key [OF sys_init this s(1)] keyboard_no_lost_wakeup [OF list_crates_doc, of None 5 "writer_new []" s] s
  show ?thesis by auto
qed

text \<open>C40: The executor serves its queue in order. If polling wakes no task, \<^verbatim>\<open>run_ready_tasks\<close> returns: it has polled the tasks of
  the queue once per entry, first in first out, skipping finished ones and passing each its own waker; finished
  tasks and their wakers are gone, the queue is empty. A panic of a future is the only other outcome.\<close>

theorem run_ready_tasks_fifo:
  assumes "array_queue_doc Q items room" and "cache_ok ex"
  shows "case poll_in_order p (items (task_queue ex)) (ex_tasks ex) x of
      Inl e \<Rightarrow> run_ready_tasks Q (quiet p) ex x = Some (Inl e)
    | Inr (ts, x') \<Rightarrow> \<exists>ex'. run_ready_tasks Q (quiet p) ex x = Some (Inr (ex', x')) \<and> ex_tasks ex' = ts \<and> items (task_queue ex') = [] \<and> cache_ok ex'"
  by (rule run_ready_tasks_order [OF assms refl])

text \<open>Futures that count down and finish at zero; polling logs the task.\<close>

theorem run_ready_tasks_fifo_witness:
  "\<exists>ex'. run_ready_tasks list_queue (quiet (\<lambda>w n x. Inr (n = (0 :: nat), n - 1, x @ [tw_task_id w])))
      \<lparr>ex_tasks = [1 \<mapsto> \<lparr>t_id = 1, t_future = 1\<rparr>, 2 \<mapsto> \<lparr>t_id = 2, t_future = 0\<rparr>], task_queue = (100, [2, 1, 2]), waker_cache = Map.empty\<rparr> [] =
      Some (Inr (ex', [2, 1])) \<and> dom (ex_tasks ex') = {1}"
  using run_ready_tasks_fifo [OF list_queue_doc, of "\<lparr>ex_tasks = [1 \<mapsto> \<lparr>t_id = 1, t_future = 1\<rparr>, 2 \<mapsto> \<lparr>t_id = 2, t_future = 0\<rparr>],
      task_queue = (100, [2, 1, 2]), waker_cache = Map.empty\<rparr>" "\<lambda>w n x. Inr (n = (0 :: nat), n - 1, x @ [tw_task_id w])" "[]"]
  by (auto simp: cache_ok_def)

end
