(* ===== verification/Interrupts.thy ===== *)
theory Interrupts
  imports Async_Tasks
begin

text \<open>
  \<^verbatim>\<open>src/interrupts.rs\<close>: the interrupt table, the timer's divisor, the handlers of the exceptions, the timer and the keyboard.
\<close>

definition PIC_1_OFFSET :: u8 where
  "PIC_1_OFFSET = 32"

definition TIMER_FREQUENCY :: u32 where
  "TIMER_FREQUENCY = 1073"

definition TIMER_FREQUENCY_BASE :: u32 where
  "TIMER_FREQUENCY_BASE = 1193182"

datatype InterruptIndex = Timer | Keyboard

fun as_u8 :: "InterruptIndex \<Rightarrow> u8" where
  "as_u8 Timer = PIC_1_OFFSET"
| "as_u8 Keyboard = PIC_1_OFFSET + 1"

definition as_usize :: "InterruptIndex \<Rightarrow> nat" where
  "as_usize i = unat (as_u8 i)"

datatype handler_fn = Breakpoint_Handler | Double_Fault_Handler | Page_Fault_Handler | Timer_Handler | Keyboard_Handler
  | Protection_Fault_Handler | Stack_Segment_Fault_Handler | Invalid_Opcode_Handler | Invalid_Tss_Handler | Alignment_Handler
  | Segment_Not_Present_Handler

text \<open>The entries of the crate's table by the names the source uses; \<open>Vector n\<close> is the index expression.\<close>

datatype idt_slot = breakpoint | double_fault | page_fault | Vector nat | general_protection_fault | stack_segment_fault
  | invalid_opcode | invalid_tss | alignment_check | segment_not_present

record idt_entry =
  idt_handler :: handler_fn
  stack_index :: "nat option"

definition set_handler_fn :: "handler_fn \<Rightarrow> idt_entry" where
  "set_handler_fn h = \<lparr>idt_handler = h, stack_index = None\<rparr>"

definition IDT :: "idt_slot \<rightharpoonup> idt_entry" where
  "IDT = Map.empty
     (breakpoint \<mapsto> set_handler_fn Breakpoint_Handler,
      double_fault \<mapsto> (set_handler_fn Double_Fault_Handler)\<lparr>stack_index := Some DOUBLE_FAULT_IST_INDEX\<rparr>,
      page_fault \<mapsto> set_handler_fn Page_Fault_Handler,
      Vector (as_usize Timer) \<mapsto> set_handler_fn Timer_Handler,
      Vector (as_usize Keyboard) \<mapsto> set_handler_fn Keyboard_Handler,
      general_protection_fault \<mapsto> set_handler_fn Protection_Fault_Handler,
      stack_segment_fault \<mapsto> set_handler_fn Stack_Segment_Fault_Handler,
      invalid_opcode \<mapsto> set_handler_fn Invalid_Opcode_Handler,
      invalid_tss \<mapsto> set_handler_fn Invalid_Tss_Handler,
      alignment_check \<mapsto> set_handler_fn Alignment_Handler,
      segment_not_present \<mapsto> set_handler_fn Segment_Not_Present_Handler)"

text \<open>What the handlers and \<^verbatim>\<open>init_idt\<close> touch: ports written, the table loaded, the ends of interrupts signalled to the PICs, and the
  scheduler behind its spin lock.\<close>

record 'f irq =
  port_writes :: "(u16 \<times> u32) list"
  loaded_idt :: "(idt_slot \<rightharpoonup> idt_entry) option"
  ended :: "u8 list"
  sched_locked :: bool
  sched :: "'f Scheduler"

definition init_idt :: "'f irq \<Rightarrow> 'f irq" where
  "init_idt st = st\<lparr>port_writes := port_writes st @ [(0x40, TIMER_FREQUENCY_BASE div TIMER_FREQUENCY)], loaded_idt := Some IDT\<rparr>"

text \<open>The timer: interrupts are off in the handler, so a lock that is held is never released and \<^verbatim>\<open>lock()\<close> spins
  forever. The lock is free again when the handler returns, and when it switches to another process.\<close>

definition timer_interrupt_handler :: "bool \<Rightarrow> cpu \<Rightarrow> 'f irq \<Rightarrow> ('f switch \<times> 'f irq) rust option" where
  "timer_interrupt_handler oc c st =
     (let st = st\<lparr>ended := ended st @ [as_u8 Timer]\<rparr> in
      if sched_locked st then None
      else case tick oc c (sched st) of
          None \<Rightarrow> None
        | Some (Inl e) \<Rightarrow> Some (Inl e)
        | Some (Inr (sw, s)) \<Rightarrow> Some (Inr (sw, st\<lparr>sched := s\<rparr>)))"

definition keyboard_interrupt_handler ::
  "('s, u8) array_queue \<Rightarrow> ('w, TaskWaker) atomic_waker \<Rightarrow> ('q, u64) array_queue \<Rightarrow> (u16 \<Rightarrow> u8) \<Rightarrow>
   ('s, 'w) keyboard \<Rightarrow> 'q \<Rightarrow> writer \<Rightarrow> 'f irq \<Rightarrow> (('s, 'w) keyboard \<times> 'q \<times> writer \<times> 'f irq) rust" where
  "keyboard_interrupt_handler S W Q read_port kb tq scr st =
     bindE (add_scancode S W Q (read_port 0x60) kb tq scr) (\<lambda>(kb, tq, scr).
     Inr (kb, tq, scr, st\<lparr>ended := ended st @ [as_u8 Keyboard]\<rparr>))"

section \<open>Exceptions\<close>

text \<open>\<open>frame\<close>, \<open>addr\<close> and \<open>code\<close> are the texts that the \<^verbatim>\<open>Debug\<close> implementations of the crate give for the interrupt stack frame, the
  faulting address and the error code of a page fault.\<close>

definition segment_not_present_handler :: "u8 list \<Rightarrow> u64 \<Rightarrow> writer \<Rightarrow> writer rust" where
  "segment_not_present_handler frame error_code = vga_print [ascii ''SEGMENT NOT PRESENT '', dec (unat error_code), [0x0A], frame, [0x0A]]"

definition alignment_handler :: "u8 list \<Rightarrow> u64 \<Rightarrow> writer \<Rightarrow> writer rust" where
  "alignment_handler frame error_code = vga_print [ascii ''ALIGNMENT CHECK '', dec (unat error_code), [0x0A], frame, [0x0A]]"

definition invalid_tss_handler :: "u8 list \<Rightarrow> u64 \<Rightarrow> writer \<Rightarrow> writer rust" where
  "invalid_tss_handler frame error_code = vga_print [ascii ''INVALID TSS '', dec (unat error_code), [0x0A], frame, [0x0A]]"

definition invalid_opcode_handler :: "u8 list \<Rightarrow> writer \<Rightarrow> writer rust" where
  "invalid_opcode_handler frame = vga_print [ascii ''INVALID OPCODE'' @ [0x0A], frame, [0x0A]]"

definition breakpoint_handler :: "u8 list \<Rightarrow> writer \<Rightarrow> writer rust" where
  "breakpoint_handler frame = vga_print [ascii ''BREAKPOINT EXCEPTION'' @ [0x0A], frame, [0x0A]]"

definition stack_segment_fault_handler :: "u8 list \<Rightarrow> u64 \<Rightarrow> writer \<Rightarrow> writer rust" where
  "stack_segment_fault_handler frame error_code = vga_print [ascii ''STACK SEGMENT FAULT: code '', dec (unat error_code), [0x0A], frame, [0x0A]]"

definition protection_fault_handler :: "u8 list \<Rightarrow> u64 \<Rightarrow> writer \<Rightarrow> writer rust" where
  "protection_fault_handler frame error_code = vga_print [ascii ''PROTECTION FAULT: code '', dec (unat error_code), [0x0A], frame, [0x0A]]"

definition double_fault_handler :: "u8 list \<Rightarrow> u64 \<Rightarrow> writer \<Rightarrow> writer rust" where
  "double_fault_handler frame error_code scr = Inl (ExplicitPanic ''DOUBLE FAULT EXCEPTION'')"

text \<open>\<^verbatim>\<open>page_fault_handler\<close> ends in \<^verbatim>\<open>hlt_loop\<close>; what it leaves behind is the text on the serial line.\<close>

definition page_fault_handler :: "u8 list \<Rightarrow> u8 list \<Rightarrow> u8 list \<Rightarrow> u8 list \<Rightarrow> u8 list" where
  "page_fault_handler frame addr code serial =
     serial @ ascii ''PAGE FAULT EXCEPTION'' @ [0x0A] @ ascii ''Address: '' @ addr @ [0x0A] @ ascii ''Error Code: '' @ code @ [0x0A] @ frame @ [0x0A]"

text \<open>What an exception does to the interrupted code: it goes on where it was, or never again.\<close>

datatype handler_end = Resumes writer | Halts_Forever "u8 list"

definition exception ::
  "idt_slot \<Rightarrow> u8 list \<Rightarrow> u64 \<Rightarrow> u8 list \<Rightarrow> u8 list \<Rightarrow> u8 list \<Rightarrow> writer \<Rightarrow> handler_end rust option" where
  "exception slot frame error_code addr code serial scr =
     (let prints = \<lambda>r. Some (bindE r (\<lambda>scr. Inr (Resumes scr))) in
      case map_option idt_handler (IDT slot) of
        Some Segment_Not_Present_Handler \<Rightarrow> prints (segment_not_present_handler frame error_code scr)
      | Some Alignment_Handler \<Rightarrow> prints (alignment_handler frame error_code scr)
      | Some Invalid_Tss_Handler \<Rightarrow> prints (invalid_tss_handler frame error_code scr)
      | Some Invalid_Opcode_Handler \<Rightarrow> prints (invalid_opcode_handler frame scr)
      | Some Breakpoint_Handler \<Rightarrow> prints (breakpoint_handler frame scr)
      | Some Stack_Segment_Fault_Handler \<Rightarrow> prints (stack_segment_fault_handler frame error_code scr)
      | Some Protection_Fault_Handler \<Rightarrow> prints (protection_fault_handler frame error_code scr)
      | Some Double_Fault_Handler \<Rightarrow> prints (double_fault_handler frame error_code scr)
      | Some Page_Fault_Handler \<Rightarrow> Some (Inr (Halts_Forever (page_fault_handler frame addr code serial)))
      | _ \<Rightarrow> None)"

lemma printing_resumes:
  assumes "displays scr hist" and "length (last hist) < 80"
  shows "\<exists>text scr'. Some (bindE (vga_print (heading @ [[0x0A], frame, [0x0A]]) scr) (\<lambda>scr. Inr (Resumes scr))) = Some (Inr (Resumes scr')) \<and>
      displays scr' (term_string (default_color scr) hist (text @ [0x0A] @ frame @ [0x0A]))"
    and "\<exists>text scr'. Some (bindE (vga_print [heading' @ [0x0A], frame, [0x0A]] scr) (\<lambda>scr. Inr (Resumes scr))) = Some (Inr (Resumes scr')) \<and>
      displays scr' (term_string (default_color scr) hist (text @ [0x0A] @ frame @ [0x0A]))"
proof -
  have s: "shows_text scr (default_color scr, hist)" using assms by (simp add: shows_text_def)
  show "\<exists>text scr'. Some (bindE (vga_print (heading @ [[0x0A], frame, [0x0A]]) scr) (\<lambda>scr. Inr (Resumes scr))) = Some (Inr (Resumes scr')) \<and>
      displays scr' (term_string (default_color scr) hist (text @ [0x0A] @ frame @ [0x0A]))"
    using vga.print_then [OF s, of "heading @ [[0x0A], frame, [0x0A]]" "\<lambda>scr. Inr (Resumes scr)"]
    by (intro exI [of _ "concat heading"]) (auto simp: shows_text_def)
  show "\<exists>text scr'. Some (bindE (vga_print [heading' @ [0x0A], frame, [0x0A]] scr) (\<lambda>scr. Inr (Resumes scr))) = Some (Inr (Resumes scr')) \<and>
      displays scr' (term_string (default_color scr) hist (text @ [0x0A] @ frame @ [0x0A]))"
    using vga.print_then [OF s, of "[heading' @ [0x0A], frame, [0x0A]]" "\<lambda>scr. Inr (Resumes scr)"]
    by (intro exI [of _ heading']) (auto simp: shows_text_def)
qed

lemmas handler_defs = segment_not_present_handler_def alignment_handler_def invalid_tss_handler_def invalid_opcode_handler_def
  breakpoint_handler_def stack_segment_fault_handler_def protection_fault_handler_def

text \<open>Faults of the running code. Any exception but a double fault or a page fault prints its message with the stack frame after
  what the screen showed, and its handler returns: the processor goes on with the instruction that faulted.\<close>

theorem exception_resumes:
  assumes "displays scr hist" and "length (last hist) < 80"
    and "slot \<in> {breakpoint, general_protection_fault, stack_segment_fault, invalid_opcode, invalid_tss, alignment_check, segment_not_present}"
  shows "\<exists>text scr'. exception slot frame error_code addr code serial scr = Some (Inr (Resumes scr')) \<and>
    displays scr' (term_string (default_color scr) hist (text @ [0x0A] @ frame @ [0x0A]))"
  using assms(3) printing_resumes(1) [OF assms(1,2), of "[_, _]" frame] printing_resumes(2) [OF assms(1,2), of _ frame]
  by (auto simp: exception_def IDT_def set_handler_fn_def as_usize_def handler_defs Let_def)

theorem exception_resumes_witness:
  "\<exists>text scr'. exception general_protection_fault [0x46] 16 [] [] [] (writer_new (replicate 25 (replicate 80 \<lparr>get_char = 0, get_color = 0\<rparr>))) =
      Some (Inr (Resumes scr')) \<and>
    displays scr' (term_string (color_code_new White Black False) [[]] (text @ [0x0A, 0x46, 0x0A]))"
  using exception_resumes [OF writer_new_displays, of "replicate 25 (replicate 80 \<lparr>get_char = 0, get_color = 0\<rparr>)" general_protection_fault "[0x46]" 16 "[]" "[]" "[]"]
  by (simp add: screen_dims_def writer_new_def)

section \<open>A run of timer interrupts\<close>

fun timer_interrupts :: "bool \<Rightarrow> cpu list \<Rightarrow> 'f irq \<Rightarrow> 'f irq rust option" where
  "timer_interrupts oc [] st = Some (Inr st)"
| "timer_interrupts oc (c # cs) st =
     (case timer_interrupt_handler oc c st of
        None \<Rightarrow> None
      | Some (Inl e) \<Rightarrow> Some (Inl e)
      | Some (Inr (sw, st)) \<Rightarrow> timer_interrupts oc cs st)"

text \<open>The timer drives the scheduler and every interrupt is acknowledged.\<close>

lemma timer_interrupts_ticks:
  assumes "\<not> sched_locked st" and "run_ticks oc cs (sched st) = Some (Inr s)"
  shows "timer_interrupts oc cs st = Some (Inr (st\<lparr>ended := ended st @ replicate (length cs) (as_u8 Timer), sched := s\<rparr>))"
  using assms
proof (induction cs arbitrary: st)
  case (Cons c cs)
  then obtain sw s1 where "tick oc c (sched st) = Some (Inr (sw, s1))" "run_ticks oc cs s1 = Some (Inr s)"
    by (auto split: option.splits sum.splits)
  then show ?case
    using Cons.IH [of "st\<lparr>ended := ended st @ [as_u8 Timer], sched := s1\<rparr>"] Cons.prems(1)
    by (simp add: timer_interrupt_handler_def Let_def replicate_append_same)
qed simp

end
