(* ===== verification/Elf.thy ===== *)
theory Elf
  imports Heap_Init Utf8
begin

text \<open>
  The ELF loader (\<^verbatim>\<open>elf.rs\<close>): the packed file and program headers, the checks of
  \<^verbatim>\<open>ElfHeader::from_slice\<close> and \<^verbatim>\<open>map_elf_file_to_process\<close>, which maps the loadable segments into the
  active page table and copies their bytes. The crate functions \<^verbatim>\<open>align_down\<close>,
  \<^verbatim>\<open>Page::containing_address(VirtAddr::new(a))\<close>, \<^verbatim>\<open>map_to\<close> and the frame allocator are parameters.
\<close>

section \<open>Headers\<close>

definition MAGIC_NUM :: "u8 list" where
  "MAGIC_NUM = [0x7F, 0x45, 0x4C, 0x46]"

record ElfHeader =
  magic_num :: "u8 list"
  bits :: u8
  endianness :: u8
  elf_header_version :: u8
  os_abi :: u8
  eh_reserved :: "u8 list"
  elf_type :: u16
  instruction_set :: u16
  elf_version :: u32
  program_entry :: u64
  program_header_table :: u64
  section_header_table :: u64
  eh_flags :: u32
  header_size :: u16
  program_entry_size :: u16
  program_entry_count :: u16
  section_entry_size :: u16
  section_entry_count :: u16
  section_names_idx :: u16

record ProgramHeader =
  header_type :: u32
  ph_flags :: u32
  ph_offset :: u64
  virt_addr :: u64
  ph_reserved :: "u8 list"
  file_size :: u64
  mem_size :: u64
  ph_align :: u64

datatype ProgramHeaderType = Null | Load | Dynamic | Interp | Note | SHLib | PHDR | LoProc | HiProc

fun type_u32 :: "ProgramHeaderType \<Rightarrow> u32" where
  "type_u32 Null = 0x0"
| "type_u32 Load = 0x1"
| "type_u32 Dynamic = 0x2"
| "type_u32 Interp = 0x3"
| "type_u32 Note = 0x4"
| "type_u32 SHLib = 0x5"
| "type_u32 PHDR = 0x6"
| "type_u32 LoProc = 0x70000000"
| "type_u32 HiProc = 0x7FFFFFFF"

datatype ElfVerifyError = BadSliceSize nat | BadMagicNum | Elf32Bit | BadEndianness | BadArch

definition elf_header_at :: "u8 list \<Rightarrow> ElfHeader" where
  "elf_header_at bs = \<lparr>
     magic_num = field bs 0 4,
     bits = le_word (field bs 4 1),
     endianness = le_word (field bs 5 1),
     elf_header_version = le_word (field bs 6 1),
     os_abi = le_word (field bs 7 1),
     eh_reserved = field bs 8 8,
     elf_type = le_word (field bs 16 2),
     instruction_set = le_word (field bs 18 2),
     elf_version = le_word (field bs 20 4),
     program_entry = le_word (field bs 24 8),
     program_header_table = le_word (field bs 32 8),
     section_header_table = le_word (field bs 40 8),
     eh_flags = le_word (field bs 48 4),
     header_size = le_word (field bs 52 2),
     program_entry_size = le_word (field bs 54 2),
     program_entry_count = le_word (field bs 56 2),
     section_entry_size = le_word (field bs 58 2),
     section_entry_count = le_word (field bs 60 2),
     section_names_idx = le_word (field bs 62 2)\<rparr>"

definition program_header_at :: "u8 list \<Rightarrow> ProgramHeader" where
  "program_header_at bs = \<lparr>
     header_type = le_word (field bs 0 4),
     ph_flags = le_word (field bs 4 4),
     ph_offset = le_word (field bs 8 8),
     virt_addr = le_word (field bs 16 8),
     ph_reserved = field bs 24 8,
     file_size = le_word (field bs 32 8),
     mem_size = le_word (field bs 40 8),
     ph_align = le_word (field bs 48 8)\<rparr>"

definition from_slice :: "u8 list \<Rightarrow> ElfVerifyError + ElfHeader" where
  "from_slice bytes =
     (if length bytes \<noteq> 64 then Inl (BadSliceSize (length bytes))
      else let header = elf_header_at bytes in
        if magic_num header \<noteq> MAGIC_NUM then Inl BadMagicNum
        else if bits header \<noteq> 2 then Inl Elf32Bit
        else if endianness header \<noteq> 1 then Inl BadEndianness
        else if instruction_set header \<noteq> 0x3E then Inl BadArch
        else Inr header)"

section \<open>Mapping a file\<close>

text \<open>
  The loader's local variables and what it changes: the set \<open>regions\<close>, the vector \<open>frames\<close>, the page
  table, the frame allocator and the memory seen through the active page table.
\<close>

record ('f, 'm, 's) loader =
  regions :: "u64 set"
  frames :: "'f list"
  page_table :: 'm
  allocator :: 's
  active_memory :: "u64 \<Rightarrow> u8"

text \<open>The body of the loop that allocates the pages of a segment.\<close>

definition alloc_page ::
  "(u64 \<Rightarrow> u64 \<Rightarrow> u64) \<Rightarrow> (u64 \<Rightarrow> u64 rust) \<Rightarrow> ('s \<Rightarrow> ('f option \<times> 's) rust) \<Rightarrow> ('f, 'm, 's) map_to_fn \<Rightarrow>
   bool \<Rightarrow> ProgramHeader \<Rightarrow> u64 \<Rightarrow> ('f, 'm, 's) loader \<Rightarrow> ('f, 'm, 's) loader rust" where
  "alloc_page align_down page_of allocate_frame map_to oc h i st =
     bindE (mul_ck oc i 0x1000) (\<lambda>off.
     bindE (add_ck oc off (align_down (virt_addr h) 0x1000)) (\<lambda>page_addr.
     if page_addr \<in> regions st then Inr st else
     bindE (allocate_frame (allocator st)) (\<lambda>(r, s).
     bindE (expect ''failed to allocate frame'' r) (\<lambda>frame.
     bindE (page_of (virt_addr h)) (\<lambda>page.
     bindE (map_to page frame {PRESENT, WRITABLE, USER_ACCESSIBLE} (page_table st) s) (\<lambda>(e, m, s).
     case e of
       Inl err \<Rightarrow> Inl (UnwrapFailed ''called `Result::unwrap()` on an `Err` value'')
     | Inr _ \<Rightarrow> Inr (st\<lparr>frames := frames st @ [frame], regions := insert page_addr (regions st),
                        page_table := m, allocator := s\<rparr>)))))))"

text \<open>
  The body of the loop that copies the data of a segment: the destination slice is bounds checked
  against the page, the source slice against the file.
\<close>

definition copy_to_page :: "u64 \<Rightarrow> nat \<Rightarrow> u8 list \<Rightarrow> (u64 \<Rightarrow> u8) \<Rightarrow> (u64 \<Rightarrow> u8)" where
  "copy_to_page page lo bs mem = (\<lambda>a. let k = unat (a - page) in
     if lo \<le> k \<and> k < lo + length bs then bs ! (k - lo) else mem a)"

definition copy_chunk ::
  "(u64 \<Rightarrow> u64 \<Rightarrow> u64) \<Rightarrow> bool \<Rightarrow> u8 list \<Rightarrow> ProgramHeader \<Rightarrow> u64 \<times> (u64 \<Rightarrow> u8) \<Rightarrow> (u64 \<times> (u64 \<Rightarrow> u8)) rust" where
  "copy_chunk align_down oc file h = (\<lambda>(working_offset, mem).
     bindE (add_ck oc (ph_offset h) working_offset) (\<lambda>lower_bound.
     bindE (add_ck oc (virt_addr h) working_offset) (\<lambda>v.
     let page_addr = align_down v 0x1000 in
     bindE (add_ck oc page_addr 0x1000) (\<lambda>page_end.
     bindE (sub_ck oc (file_size h) working_offset) (\<lambda>left.
     bindE (add_ck oc left 1) (\<lambda>left_1.
     let write_size = min page_end left_1;
         lower_bound_offset = lower_bound mod 0x1000 in
     bindE (add_ck oc lower_bound_offset write_size) (\<lambda>hi.
     if \<not> (lower_bound_offset \<le> hi \<and> hi \<le> 0x1000) then Inl IndexOutOfBounds else
     bindE (add_ck oc lower_bound write_size) (\<lambda>upper_bound.
     bindE (slice_ck file (unat lower_bound) (unat upper_bound)) (\<lambda>src.
     if unat hi - unat lower_bound_offset \<noteq> length src then
       Inl (ExplicitPanic ''copy_from_slice: source slice length does not match destination slice length'')
     else
       bindE (add_ck oc working_offset write_size) (\<lambda>working_offset.
       Inr (working_offset, copy_to_page page_addr (unat lower_bound_offset) src mem)))))))))))"

definition load_segment ::
  "(u64 \<Rightarrow> u64 \<Rightarrow> u64) \<Rightarrow> (u64 \<Rightarrow> u64 rust) \<Rightarrow> ('s \<Rightarrow> ('f option \<times> 's) rust) \<Rightarrow> ('f, 'm, 's) map_to_fn \<Rightarrow>
   bool \<Rightarrow> u8 list \<Rightarrow> ProgramHeader \<Rightarrow> ('f, 'm, 's) loader \<Rightarrow> ('f, 'm, 's) loader rust" where
  "load_segment align_down page_of allocate_frame map_to oc file h st =
     (if header_type h \<noteq> type_u32 Load then Inr st
      else let page_count = mem_size h div 0x1000 + 1 in
        bindE (foldE (\<lambda>i. alloc_page align_down page_of allocate_frame map_to oc h (of_nat i))
                 [0 ..< unat page_count] st) (\<lambda>st.
        let file_data_page_count = file_size h div 0x1000 + 1 in
        bindE (foldE (\<lambda>_. copy_chunk align_down oc file h) [0 ..< unat file_data_page_count] (0, active_memory st)) (\<lambda>(_, mem).
        Inr (st\<lparr>active_memory := mem\<rparr>))))"

text \<open>
  The program header table is reinterpreted in place: only its first byte is bounds checked, so the
  headers are read from memory that may extend past the file; \<open>beyond i\<close> is the byte \<open>i\<close> past its end.
\<close>

definition byte_at :: "(nat \<Rightarrow> u8) \<Rightarrow> u8 list \<Rightarrow> nat \<Rightarrow> u8" where
  "byte_at beyond file i = (if i < length file then file ! i else beyond (i - length file))"

definition program_headers :: "(nat \<Rightarrow> u8) \<Rightarrow> u8 list \<Rightarrow> nat \<Rightarrow> nat \<Rightarrow> ProgramHeader list" where
  "program_headers beyond file start count =
     map (\<lambda>i. program_header_at (map (\<lambda>j. byte_at beyond file (start + 56 * i + j)) [0 ..< 56])) [0 ..< count]"

definition map_elf_file_to_process ::
  "(u64 \<Rightarrow> u64 \<Rightarrow> u64) \<Rightarrow> (u64 \<Rightarrow> u64 rust) \<Rightarrow> ('s \<Rightarrow> ('f option \<times> 's) rust) \<Rightarrow> ('f, 'm, 's) map_to_fn \<Rightarrow>
   bool \<Rightarrow> (nat \<Rightarrow> u8) \<Rightarrow> u8 list \<Rightarrow> 'm \<Rightarrow> 's \<Rightarrow> (u64 \<Rightarrow> u8) \<Rightarrow> (('f list \<times> u64) \<times> ('f, 'm, 's) loader) rust" where
  "map_elf_file_to_process align_down page_of allocate_frame map_to oc beyond file m s mem =
     bindE (slice_ck file 0 64) (\<lambda>hd_bytes.
     case from_slice hd_bytes of
       Inl err \<Rightarrow> Inl (UnwrapFailed ''invalid elf header'')
     | Inr elf_header \<Rightarrow>
         bindE (index_ck file (unat (program_header_table elf_header))) (\<lambda>_.
         bindE (foldE (load_segment align_down page_of allocate_frame map_to oc file)
             (program_headers beyond file (unat (program_header_table elf_header)) (unat (program_entry_count elf_header)))
             \<lparr>regions = {}, frames = [], page_table = m, allocator = s, active_memory = mem\<rparr>) (\<lambda>st.
         Inr ((frames st, program_entry elf_header), st))))"

section \<open>Reading headers\<close>

definition elf_header_bytes :: "ElfHeader \<Rightarrow> u8 list" where
  "elf_header_bytes h = magic_num h @ le_bytes 1 (bits h) @ le_bytes 1 (endianness h) @
     le_bytes 1 (elf_header_version h) @ le_bytes 1 (os_abi h) @ eh_reserved h @ le_bytes 2 (elf_type h) @
     le_bytes 2 (instruction_set h) @ le_bytes 4 (elf_version h) @ le_bytes 8 (program_entry h) @
     le_bytes 8 (program_header_table h) @ le_bytes 8 (section_header_table h) @ le_bytes 4 (eh_flags h) @
     le_bytes 2 (header_size h) @ le_bytes 2 (program_entry_size h) @ le_bytes 2 (program_entry_count h) @
     le_bytes 2 (section_entry_size h) @ le_bytes 2 (section_entry_count h) @ le_bytes 2 (section_names_idx h)"

definition program_header_bytes :: "ProgramHeader \<Rightarrow> u8 list" where
  "program_header_bytes h = le_bytes 4 (header_type h) @ le_bytes 4 (ph_flags h) @ le_bytes 8 (ph_offset h) @
     le_bytes 8 (virt_addr h) @ ph_reserved h @ le_bytes 8 (file_size h) @ le_bytes 8 (mem_size h) @ le_bytes 8 (ph_align h)"

lemma elf_header_at_bytes:
  assumes "length (magic_num h) = 4" and "length (eh_reserved h) = 8"
  shows "elf_header_at (elf_header_bytes h) = h"
  unfolding elf_header_at_def elf_header_bytes_def
  by (rule ElfHeader.equality)
    (simp_all add: field_skip field_here le_word_le_bytes assms del: le_bytes.simps One_nat_def)

lemma length_elf_header_bytes:
  "length (magic_num h) = 4 \<Longrightarrow> length (eh_reserved h) = 8 \<Longrightarrow> length (elf_header_bytes h) = 64"
  by (simp add: elf_header_bytes_def)

lemma program_header_at_bytes:
  "length (ph_reserved h) = 8 \<Longrightarrow> program_header_at (program_header_bytes h) = h"
  unfolding program_header_at_def program_header_bytes_def
  by (rule ProgramHeader.equality) (simp_all add: field_skip field_here le_word_le_bytes)

interpretation elf_header: packed_struct elf_header_at elf_header_bytes "\<lambda>h. length (magic_num h) = 4 \<and> length (eh_reserved h) = 8" 64
  by unfold_locales (simp_all add: elf_header_at_bytes length_elf_header_bytes)

interpretation program_header: packed_struct program_header_at program_header_bytes "\<lambda>h. length (ph_reserved h) = 8" 56
  by unfold_locales (simp_all add: program_header_at_bytes, simp add: program_header_bytes_def)

definition valid_elf_header :: "ElfHeader \<Rightarrow> bool" where
  "valid_elf_header h \<longleftrightarrow> magic_num h = MAGIC_NUM \<and> length (eh_reserved h) = 8 \<and> bits h = 2 \<and>
     endianness h = 1 \<and> instruction_set h = 0x3E"

lemma elf_header_bytes_at:
  assumes "length bs = 64"
  shows "elf_header_bytes (elf_header_at bs) = bs"
proof -
  have "elf_header_bytes (elf_header_at bs) = field bs 0 64"
    unfolding elf_header_at_def elf_header_bytes_def
    by (simp add: le_bytes_le_word length_field [OF assms] field_joins del: le_bytes.simps)
  then show ?thesis by (simp add: field_def assms)
qed

lemma from_slice_bytes: "valid_elf_header h \<Longrightarrow> from_slice (elf_header_bytes h) = Inr h"
  by (simp add: from_slice_def Let_def elf_header_at_bytes length_elf_header_bytes valid_elf_header_def MAGIC_NUM_def)

text \<open>C35: \<^verbatim>\<open>ElfHeader::from_slice\<close> accepts exactly the 64-byte encodings of 64-bit little-endian x86-64 headers,
  and the header it returns is the one that was encoded.\<close>

theorem from_slice_roundtrip:
  "from_slice bs = Inr h \<longleftrightarrow> valid_elf_header h \<and> bs = elf_header_bytes h"
proof
  assume ok: "from_slice bs = Inr h"
  then have len: "length bs = 64" and h: "h = elf_header_at bs"
    by (auto simp: from_slice_def Let_def split: if_splits)
  moreover have "length (eh_reserved h) = 8"
    by (simp add: h elf_header_at_def field_def len)
  moreover have "magic_num h = MAGIC_NUM" "bits h = 2" "endianness h = 1" "instruction_set h = 0x3E"
    using ok h by (auto simp: from_slice_def Let_def split: if_splits)
  ultimately show "valid_elf_header h \<and> bs = elf_header_bytes h"
    by (simp add: valid_elf_header_def elf_header_bytes_at)
next
  assume "valid_elf_header h \<and> bs = elf_header_bytes h"
  then show "from_slice bs = Inr h" by (simp add: from_slice_bytes)
qed

text \<open>The program headers of a file whose table holds the encodings of \<open>phs\<close>.\<close>

lemma program_headers_layout:
  assumes "\<forall>h \<in> set phs. length (ph_reserved h) = 8"
  shows "program_headers beyond (xs @ concat (map program_header_bytes phs) @ ys) (length xs) (length phs) = phs"
proof (rule nth_equalityI)
  let ?file = "xs @ concat (map program_header_bytes phs) @ ys"
  fix i assume "i < length (program_headers beyond ?file (length xs) (length phs))"
  then have i: "i < length phs" by (simp add: program_headers_def)
  let ?bs = "take 56 (drop (56 * i) (concat (map program_header_bytes phs) @ ys))"
  have bs: "?bs = program_header_bytes (phs ! i)" and r: "length (ph_reserved (phs ! i)) = 8"
    using program_header.take_array [OF assms i] assms i by auto
  define cs where "cs = concat (map program_header_bytes phs) @ ys"
  have "length ?bs = 56" unfolding bs by (rule program_header.length_encode [OF r])
  then have "56 * i + 56 \<le> length cs" by (auto simp: cs_def)
  then have "map (\<lambda>j. byte_at beyond (xs @ cs) (length xs + 56 * i + j)) [0 ..< 56] = take 56 (drop (56 * i) cs)"
    by (intro nth_equalityI) (simp_all add: byte_at_def nth_append add.assoc del: upt_rec_numeral)
  then have "map (\<lambda>j. byte_at beyond ?file (length xs + 56 * i + j)) [0 ..< 56] = program_header_bytes (phs ! i)"
    by (simp only: cs_def bs)
  then show "program_headers beyond ?file (length xs) (length phs) ! i = phs ! i"
    using i r by (simp add: program_headers_def program_header.decode_encode del: upt_rec_numeral)
qed (simp add: program_headers_def)

section \<open>Loading a segment\<close>

text \<open>The documented behaviour of the crate functions on user addresses.\<close>

definition align_down_doc :: "(u64 \<Rightarrow> u64 \<Rightarrow> u64) \<Rightarrow> bool" where
  "align_down_doc align_down \<longleftrightarrow> (\<forall>a. align_down a 0x1000 = a - a mod 0x1000)"

definition page_of_doc :: "(u64 \<Rightarrow> u64 rust) \<Rightarrow> bool" where
  "page_of_doc page_of \<longleftrightarrow> (\<forall>a < 0x800000000000. page_of a = Inr (a - a mod 0x1000))"

text \<open>\<^verbatim>\<open>map_to\<close> maps an unmapped page when three frames are left for the page tables it may have to create.\<close>

definition map_to_succeeds ::
  "('f, 'm, 's) map_to_fn \<Rightarrow> ('m \<Rightarrow> u64 \<rightharpoonup> 'f \<times> page_flag set) \<Rightarrow> ('s \<Rightarrow> 'f list) \<Rightarrow> ('s \<Rightarrow> bool) \<Rightarrow> bool" where
  "map_to_succeeds map_to lookup free good \<longleftrightarrow>
     (\<forall>page f fl m s. good s \<and> lookup m page = None \<and> 3 \<le> length (free s) \<longrightarrow>
        (\<exists>m' s'. map_to page f fl m s = Inr (Inr (), m', s') \<and> length (free s) \<le> length (free s') + 3))"

text \<open>
  A segment that the loader can load: it fits, with one byte to spare, into one page of memory and into
  the file, and its offset and address agree modulo the page size.
\<close>

definition page_base :: "u64 \<Rightarrow> u64" where
  "page_base a = a - a mod 0x1000"

definition one_page_segment :: "u8 list \<Rightarrow> ProgramHeader \<Rightarrow> bool" where
  "one_page_segment file h \<longleftrightarrow> mem_size h < 0x1000 \<and>
     unat (virt_addr h) mod 4096 + unat (file_size h) + 1 \<le> 4096 \<and>
     unat (ph_offset h) mod 4096 = unat (virt_addr h) mod 4096 \<and>
     unat (ph_offset h) + unat (file_size h) + 1 \<le> length file \<and> virt_addr h < 0x800000000000"

abbreviation loadable :: "ProgramHeader list \<Rightarrow> ProgramHeader list" where
  "loadable \<equiv> filter (\<lambda>h. header_type h = type_u32 Load)"

text \<open>What the loader writes for such a segment: one byte more than its size in the file.\<close>

definition write_segment :: "u8 list \<Rightarrow> ProgramHeader \<Rightarrow> (u64 \<Rightarrow> u8) \<Rightarrow> (u64 \<Rightarrow> u8)" where
  "write_segment file h = copy_to_page (page_base (virt_addr h)) (unat (virt_addr h) mod 4096)
     (take (unat (file_size h) + 1) (drop (unat (ph_offset h)) file))"

abbreviation user_flags :: "page_flag set" where
  "user_flags \<equiv> {PRESENT, WRITABLE, USER_ACCESSIBLE}"

lemma unat_page_base: "unat (page_base a) = unat a - unat a mod 4096"
proof -
  have m: "unat (a mod 0x1000) = unat a mod 4096"
    by (simp add: unat_mod)
  then have "a mod 0x1000 \<le> a" by (simp add: word_le_nat_alt)
  then show ?thesis
    unfolding page_base_def by (simp add: unat_sub m)
qed

lemma div_page_small: "(a :: u64) < 0x1000 \<Longrightarrow> a div 0x1000 = 0"
  by (simp add: word_less_nat_alt div_eq_0_iff word_arith_nat_div)

lemma copy_chunk_one_page:
  assumes ad: "align_down_doc align_down" and seg: "one_page_segment file h" and len: "length file < 2 ^ 63"
  shows "copy_chunk align_down oc file h (0, mem) = Inr (file_size h + 1,
    write_segment file h mem)"
proof -
  have fs: "unat (file_size h) < 4096" and v: "unat (virt_addr h) < 0x800000000000"
    and o: "unat (ph_offset h) < 2 ^ 63"
    and fit: "unat (ph_offset h) mod 4096 + unat (file_size h) + 1 \<le> 4096"
    and src: "unat (ph_offset h) + unat (file_size h) + 1 \<le> length file"
    using seg len by (auto simp: one_page_segment_def word_less_nat_alt)
  have w: "unat (file_size h + 1) = unat (file_size h) + 1"
    using fs by (simp add: unat_word_ariths)
  have lbo: "unat (ph_offset h mod 0x1000) = unat (ph_offset h) mod 4096"
    by (simp add: unat_mod)
  have pe: "unat (page_base (virt_addr h) + 0x1000) = unat (page_base (virt_addr h)) + 4096"
    using v by (subst unat_add_small) (simp_all add: unat_page_base)
  then have mn: "min (page_base (virt_addr h) + 0x1000) (file_size h + 1) = file_size h + 1"
    using fs w by (intro min_absorb2) (simp add: word_le_nat_alt)
  have hi: "unat (ph_offset h mod 0x1000 + (file_size h + 1)) = unat (ph_offset h) mod 4096 + unat (file_size h) + 1"
    using fit lbo w by (subst unat_add_small) simp_all
  have ub: "unat (ph_offset h + (file_size h + 1)) = unat (ph_offset h) + unat (file_size h) + 1"
    using o fs w by (subst unat_add_small) simp_all
  have a1: "add_ck oc (page_base (virt_addr h)) 0x1000 = Inr (page_base (virt_addr h) + 0x1000)"
    using v by (intro add_ck_ok) (simp add: unat_page_base)
  have a2: "add_ck oc (file_size h) 1 = Inr (file_size h + 1)"
    using fs by (intro add_ck_ok) simp
  have a3: "add_ck oc (ph_offset h mod 0x1000) (file_size h + 1) = Inr (ph_offset h mod 0x1000 + (file_size h + 1))"
    using fit lbo w by (intro add_ck_ok) simp
  have a4: "add_ck oc (ph_offset h) (file_size h + 1) = Inr (ph_offset h + (file_size h + 1))"
    using o fs w by (intro add_ck_ok) simp
  have a0: "add_ck oc a 0 = Inr a" "add_ck oc 0 a = Inr a" "sub_ck oc a 0 = Inr a" for a :: u64
    using unat_less_u64 [of a] by (simp_all add: add_ck_def sub_ck_def)
  have "unat (ph_offset h) mod 4096 = unat (virt_addr h) mod 4096"
    using seg by (simp add: one_page_segment_def)
  then show ?thesis
    using ad fit src unfolding copy_chunk_def align_down_doc_def write_segment_def
    by (simp add: a0 a1 a2 a3 a4 mn hi ub lbo Let_def word_le_nat_alt slice_ck_ok flip: page_base_def)
qed

context frame_allocator
begin

lemma alloc_first_page:
  assumes ad: "align_down_doc align_down" and po: "page_of_doc page_of" and v: "virt_addr h < 0x800000000000"
    and mt: "map_to_contract map_to lookup free inv" "map_to_succeeds map_to lookup free inv"
    and new: "page_base (virt_addr h) \<notin> regions st" "lookup (page_table st) (page_base (virt_addr h)) = None"
    and al: "inv (allocator st)" "4 \<le> length (free (allocator st))"
  shows "\<exists>m s k. alloc_page align_down page_of alloc map_to oc h 0 st =
      Inr (st\<lparr>frames := frames st @ [hd (free (allocator st))],
              regions := insert (page_base (virt_addr h)) (regions st), page_table := m, allocator := s\<rparr>) \<and>
    lookup m = (lookup (page_table st))(page_base (virt_addr h) \<mapsto>
       (hd (free (allocator st)), user_flags)) \<and> inv s \<and>
    length (free (allocator st)) \<le> length (free s) + 4 \<and> free s = drop (Suc k) (free (allocator st))"
proof -
  let ?p = "page_base (virt_addr h)"
  obtain f fs where free: "free (allocator st) = f # fs" and three: "3 \<le> length fs"
    using al(2) by (cases "free (allocator st)") auto
  obtain s1 where s1: "alloc (allocator st) = Inr (Some f, s1)" "inv s1" "free s1 = fs"
    using alloc_Cons [OF al(1) free] by blast
  obtain m s where ms: "map_to ?p f user_flags (page_table st) s1 = Inr (Inr (), m, s)" "length fs \<le> length (free s) + 3"
    using mt(2) new(2) s1 three unfolding map_to_succeeds_def by metis
  note d = map_to_contractD [OF mt(1) s1(2) ms(1)]
  obtain k where k: "free s = drop k fs" using d(4) s1(3) by auto
  have pg: "align_down (virt_addr h) 0x1000 = ?p" "page_of (virt_addr h) = Inr ?p"
    using ad po v by (simp_all add: align_down_doc_def page_of_doc_def page_base_def)
  have ck: "mul_ck oc 0 (0x1000 :: u64) = Inr 0" "add_ck oc 0 ?p = Inr ?p"
    using unat_less_u64 [of ?p] by (simp_all add: mul_ck_def add_ck_def)
  have "alloc_page align_down page_of alloc map_to oc h 0 st =
      Inr (st\<lparr>frames := frames st @ [f], regions := insert ?p (regions st), page_table := m, allocator := s\<rparr>)"
    using new(1) s1(1) ms(1) by (simp add: alloc_page_def ck pg)
  with d(2,3) ms(2) k show ?thesis
    by (intro exI [of _ m] exI [of _ s] exI [of _ k]) (simp add: free)
qed

lemma load_one_page_segment:
  assumes "align_down_doc align_down" and "page_of_doc page_of" and seg: "one_page_segment file h"
    and "map_to_contract map_to lookup free inv" and "map_to_succeeds map_to lookup free inv"
    and "page_base (virt_addr h) \<notin> regions st" and "lookup (page_table st) (page_base (virt_addr h)) = None"
    and "inv (allocator st)" and "4 \<le> length (free (allocator st))"
    and "length file < 2 ^ 63" and "header_type h = type_u32 Load"
  shows "\<exists>m s k. load_segment align_down page_of alloc map_to oc file h st =
      Inr (st\<lparr>frames := frames st @ [hd (free (allocator st))],
              regions := insert (page_base (virt_addr h)) (regions st), page_table := m, allocator := s,
              active_memory := write_segment file h (active_memory st)\<rparr>) \<and>
    lookup m = (lookup (page_table st))(page_base (virt_addr h) \<mapsto>
       (hd (free (allocator st)), user_flags)) \<and> inv s \<and>
    length (free (allocator st)) \<le> length (free s) + 4 \<and> free s = drop (Suc k) (free (allocator st))"
proof -
  have small: "mem_size h div 0x1000 = 0" "file_size h div 0x1000 = 0" and v: "virt_addr h < 0x800000000000"
    using seg by (auto simp: one_page_segment_def word_less_nat_alt intro!: div_page_small)
  from alloc_first_page [OF assms(1,2) v assms(4-9), of oc] obtain m s k where
    run: "alloc_page align_down page_of alloc map_to oc h 0 st =
      Inr (st\<lparr>frames := frames st @ [hd (free (allocator st))],
              regions := insert (page_base (virt_addr h)) (regions st), page_table := m, allocator := s\<rparr>)"
    and rest: "lookup m = (lookup (page_table st))(page_base (virt_addr h) \<mapsto>
       (hd (free (allocator st)), user_flags)) \<and> inv s \<and>
      length (free (allocator st)) \<le> length (free s) + 4 \<and> free s = drop (Suc k) (free (allocator st))"
    by blast
  have "load_segment align_down page_of alloc map_to oc file h st =
      Inr (st\<lparr>frames := frames st @ [hd (free (allocator st))],
              regions := insert (page_base (virt_addr h)) (regions st), page_table := m, allocator := s,
              active_memory := write_segment file h (active_memory st)\<rparr>)"
    using assms(11)
    by (simp add: load_segment_def Let_def small run copy_chunk_one_page [OF assms(1) seg assms(10)])
  with rest show ?thesis by blast
qed

text \<open>
  What the loader promises of the segments \<open>hs\<close> it has loaded: every one is mapped for user access to a
  frame of its own, and memory holds its bytes followed by the byte after them in the file.
\<close>

lemma load_one_page_segments:
  assumes "align_down_doc align_down" and "page_of_doc page_of"
    and "map_to_contract map_to lookup free inv" and "map_to_succeeds map_to lookup free inv"
    and "length file < 2 ^ 63"
    and "\<forall>h \<in> set hs. header_type h = type_u32 Load \<longrightarrow> one_page_segment file h"
    and "distinct (map (page_base \<circ> virt_addr) (loadable hs))"
    and "\<forall>h \<in> set hs. header_type h = type_u32 Load \<longrightarrow> page_base (virt_addr h) \<notin> regions st \<and>
           lookup (page_table st) (page_base (virt_addr h)) = None"
    and "inv (allocator st)" and "4 * length (loadable hs) \<le> length (free (allocator st))"
  shows "\<exists>st' fs. foldE (load_segment align_down page_of alloc map_to oc file) hs st = Inr st' \<and>
    subseq fs (free (allocator st)) \<and> frames st' = frames st @ fs \<and>
    length fs = length (loadable hs) \<and>
    lookup (page_table st') = lookup (page_table st) ++
       map_of (zip (map (page_base \<circ> virt_addr) (loadable hs))
         (map (\<lambda>f. (f, user_flags)) fs)) \<and>
    active_memory st' = fold (write_segment file) (loadable hs) (active_memory st)"
  using assms(6-)
proof (induction hs arbitrary: st)
  case Nil
  then show ?case by (simp add: exI [of _ "[]"])
next
  case (Cons h hs)
  show ?case
  proof (cases "header_type h = type_u32 Load")
    case False
    then have "load_segment align_down page_of alloc map_to oc file h st = Inr st"
      by (simp add: load_segment_def)
    with False Cons.IH [of st] Cons.prems show ?thesis by simp
  next
    case True
    let ?p = "page_base (virt_addr h)"
    obtain f fs where free: "free (allocator st) = f # fs"
      using Cons.prems(5) True by (cases "free (allocator st)") auto
    obtain m s k where run: "load_segment align_down page_of alloc map_to oc file h st =
      Inr (st\<lparr>frames := frames st @ [f], regions := insert ?p (regions st), page_table := m, allocator := s,
              active_memory := write_segment file h (active_memory st)\<rparr>)" (is "_ = Inr ?st")
      and lk: "lookup m = (lookup (page_table st))(?p \<mapsto> (f, user_flags))" and inv: "inv s"
      and len: "length (free (allocator st)) \<le> length (free s) + 4" and drop: "free s = drop k fs"
      using load_one_page_segment [OF assms(1,2) _ assms(3,4) _ _ Cons.prems(4) _ assms(5) True, of oc] Cons.prems True free
      by auto
    have "\<exists>st' gs. foldE (load_segment align_down page_of alloc map_to oc file) hs ?st = Inr st' \<and>
      subseq gs (free (allocator ?st)) \<and> frames st' = frames ?st @ gs \<and>
      length gs = length (loadable hs) \<and>
      lookup (page_table st') = lookup (page_table ?st) ++
         map_of (zip (map (page_base \<circ> virt_addr) (loadable hs))
           (map (\<lambda>f. (f, user_flags)) gs)) \<and>
      active_memory st' = fold (write_segment file) (loadable hs) (active_memory ?st)"
      by (rule Cons.IH) (use Cons.prems True inv len lk in \<open>auto simp: image_iff\<close>)
    then obtain st' gs where rest: "foldE (load_segment align_down page_of alloc map_to oc file) hs ?st = Inr st'"
      "subseq gs (drop k fs)" "frames st' = frames st @ f # gs" "length gs = length (loadable hs)"
      "lookup (page_table st') = (lookup (page_table st))(?p \<mapsto> (f, user_flags)) ++
         map_of (zip (map (page_base \<circ> virt_addr) (loadable hs)) (map (\<lambda>f. (f, user_flags)) gs))"
      "active_memory st' = fold (write_segment file) (loadable hs) (write_segment file h (active_memory st))"
      by (auto simp: lk drop)
    have notin: "?p \<notin> dom (map_of (zip (map (page_base \<circ> virt_addr) (loadable hs)) (map (\<lambda>f. (f, user_flags)) gs)))"
      using Cons.prems(2) True rest(4) by (simp add: dom_map_of_zip)
    have "subseq (f # gs) (free (allocator st))"
      using rest(2) subseq_drop [of k fs] by (auto simp: free intro: subseq_order.order_trans)
    moreover have "lookup (page_table st') = lookup (page_table st) ++
         map_of (zip (map (page_base \<circ> virt_addr) (loadable (h # hs))) (map (\<lambda>f. (f, user_flags)) (f # gs)))"
      unfolding rest(5) map_add_upd_left [OF notin] using True by simp
    moreover have "foldE (load_segment align_down page_of alloc map_to oc file) (h # hs) st = Inr st'"
      using run rest(1) by simp
    moreover have "length (f # gs) = length (loadable (h # hs))" and
      "active_memory st' = fold (write_segment file) (loadable (h # hs)) (active_memory st)"
      using rest(4,6) True by simp_all
    ultimately show ?thesis
      using rest(3) by blast
  qed
qed

end

lemma page_base_plus:
  assumes "k < 4096"
  shows "page_base (page_base v + of_nat k) = page_base v" and "unat (page_base v + of_nat k) = unat (page_base v) + k"
proof -
  obtain q where q: "unat (page_base v) = 4096 * q" and "q < 4503599627370496"
    using unat_less_u64 [of v] by (intro that [of "unat v div 4096"]) (auto simp: unat_page_base minus_mod_eq_mult_div)
  with assms show u: "unat (page_base v + of_nat k) = unat (page_base v) + k"
    by (subst unat_add_small) (simp_all add: unat_of_nat)
  show "page_base (page_base v + of_nat k) = page_base v"
    unfolding word_unat_eq_iff unat_page_base [of "page_base v + of_nat k"] u q using assms by simp
qed

lemma in_page: "a = page_base a + of_nat (unat a mod 4096)"
proof -
  have "unat (page_base a + of_nat (unat a mod 4096)) = unat a"
    by (subst page_base_plus(2)) (simp_all add: unat_page_base)
  then show ?thesis by (simp only: word_unat_eq_iff)
qed

lemma write_segment_out:
  assumes "one_page_segment file h" and "page_base a \<noteq> page_base (virt_addr h)"
  shows "write_segment file h mem a = mem a"
proof -
  let ?p = "page_base (virt_addr h)"
  have "\<not> unat (a - ?p) < 4096"
    using page_base_plus(1) [of "unat (a - ?p)" "virt_addr h"] assms(2) by auto
  moreover have "unat (virt_addr h) mod 4096 + length (take (unat (file_size h) + 1) (drop (unat (ph_offset h)) file)) \<le> 4096"
    using assms(1) by (auto simp: one_page_segment_def)
  ultimately show ?thesis
    unfolding write_segment_def copy_to_page_def Let_def by (intro if_not_P) linarith
qed

lemma write_segment_in:
  assumes "one_page_segment file h" and "i \<le> unat (file_size h)"
  shows "write_segment file h mem (virt_addr h + of_nat i) = file ! (unat (ph_offset h) + i)"
    and "page_base (virt_addr h + of_nat i) = page_base (virt_addr h)"
proof -
  let ?p = "page_base (virt_addr h)" and ?k = "unat (virt_addr h) mod 4096"
  have fit: "?k + i < 4096" and src: "unat (ph_offset h) + unat (file_size h) < length file"
    using assms by (auto simp: one_page_segment_def)
  have eq: "virt_addr h + of_nat i = ?p + of_nat (?k + i)"
    by (subst in_page) simp
  show "page_base (virt_addr h + of_nat i) = ?p"
    unfolding eq by (rule page_base_plus(1) [OF fit])
  have "unat (of_nat (?k + i) :: u64) = ?k + i"
    using fit by (intro unat_of_nat_small) simp
  then show "write_segment file h mem (virt_addr h + of_nat i) = file ! (unat (ph_offset h) + i)"
    unfolding eq using src assms(2) by (simp add: write_segment_def copy_to_page_def Let_def del: of_nat_add)
qed

lemma fold_write_segment:
  assumes "\<forall>h \<in> set hs. one_page_segment file h" and "distinct (map (page_base \<circ> virt_addr) hs)"
    and "h \<in> set hs" and "i \<le> unat (file_size h)"
  shows "fold (write_segment file) hs mem (virt_addr h + of_nat i) = file ! (unat (ph_offset h) + i)"
  using assms
proof (induction hs rule: rev_induct)
  case (snoc g hs)
  show ?case
  proof (cases "h \<in> set hs")
    case True
    then have "page_base (virt_addr h + of_nat i) \<noteq> page_base (virt_addr g)"
      using snoc.prems write_segment_in(2) [of "file" h i] by (auto simp: image_iff)
    then show ?thesis
      using True snoc by (simp add: write_segment_out)
  next
    case False
    then show ?thesis
      using snoc.prems by (auto simp: write_segment_in(1))
  qed
qed simp

lemma elf_load_ok:
  assumes "align_down_doc align_down" and "page_of_doc page_of"
    and "map_to_contract map_to lookup frame_iter (\<lambda>_. True)" and "map_to_succeeds map_to lookup frame_iter (\<lambda>_. True)"
    and "length file < 2 ^ 63" and "64 \<le> length file" and "from_slice (take 64 file) = Inr eh"
    and "unat (program_header_table eh) < length file"
    and "hs = loadable (program_headers beyond file (unat (program_header_table eh)) (unat (program_entry_count eh)))"
    and "\<forall>h \<in> set hs. one_page_segment file h \<and> lookup m (page_base (virt_addr h)) = None"
    and "distinct (map (page_base \<circ> virt_addr) hs)" and "4 * length hs \<le> length (frame_iter s)"
  shows "\<exists>fs st. map_elf_file_to_process align_down page_of ba_allocate_frame map_to oc beyond file m s mem =
      Inr ((fs, program_entry eh), st) \<and> subseq fs (frame_iter s) \<and> length fs = length hs \<and>
    lookup (page_table st) = lookup m ++ map_of (zip (map (page_base \<circ> virt_addr) hs) (map (\<lambda>f. (f, user_flags)) fs)) \<and>
    (\<forall>i < length hs. \<forall>k \<le> unat (file_size (hs ! i)).
       active_memory st (virt_addr (hs ! i) + of_nat k) = file ! (unat (ph_offset (hs ! i)) + k))"
proof -
  let ?all = "program_headers beyond file (unat (program_header_table eh)) (unat (program_entry_count eh))"
    and ?st = "\<lparr>regions = {}, frames = [], page_table = m, allocator = s, active_memory = mem\<rparr>"
  have "\<forall>h \<in> set ?all. header_type h = type_u32 Load \<longrightarrow> one_page_segment file h"
    "\<forall>h \<in> set ?all. header_type h = type_u32 Load \<longrightarrow>
       page_base (virt_addr h) \<notin> regions ?st \<and> lookup (page_table ?st) (page_base (virt_addr h)) = None"
    using assms(9,10) by auto
  from buddy.load_one_page_segments [OF assms(1-5) this(1) _ this(2), of oc] assms(9,11,12)
  obtain st fs where run: "foldE (load_segment align_down page_of ba_allocate_frame map_to oc file) ?all ?st = Inr st"
    and fs: "subseq fs (frame_iter s)" "frames st = fs" "length fs = length hs"
    and lk: "lookup (page_table st) = lookup m ++ map_of (zip (map (page_base \<circ> virt_addr) hs) (map (\<lambda>f. (f, user_flags)) fs))"
    and mem: "active_memory st = fold (write_segment file) hs mem"
    by auto
  have ret: "map_elf_file_to_process align_down page_of ba_allocate_frame map_to oc beyond file m s mem =
      Inr ((fs, program_entry eh), st)"
    using run fs(2) assms(6-8) by (simp add: map_elf_file_to_process_def slice_ck_ok index_ck_ok)
  have "active_memory st (virt_addr (hs ! i) + of_nat k) = file ! (unat (ph_offset (hs ! i)) + k)"
    if "i < length hs" "k \<le> unat (file_size (hs ! i))" for i k
    unfolding mem using assms(10,11) that by (intro fold_write_segment) auto
  with ret fs(1,3) lk show ?thesis by blast
qed

text \<open>C14: A file whose loadable segments each fit a page of their own is loaded: the loader returns its entry
  point and one distinct free frame per segment, every segment is mapped for user access, and memory
  holds its bytes; the byte after each segment is overwritten with the next byte of the file.\<close>

theorem elf_loads_one_page_segments:
  assumes "align_down_doc align_down" and "page_of_doc page_of"
    and "map_to_contract map_to lookup frame_iter (\<lambda>_. True)" and "map_to_succeeds map_to lookup frame_iter (\<lambda>_. True)"
    and "length file < 2 ^ 63" and "64 \<le> length file" and "from_slice (take 64 file) = Inr eh"
    and "unat (program_header_table eh) < length file"
    and "hs = loadable (program_headers beyond file (unat (program_header_table eh)) (unat (program_entry_count eh)))"
    and "\<forall>h \<in> set hs. one_page_segment file h \<and> lookup m (page_base (virt_addr h)) = None"
    and "distinct (map (page_base \<circ> virt_addr) hs)"
    and "4 * length hs \<le> length (frame_iter s)" and "distinct (frame_iter s)"
  shows "\<exists>fs st. map_elf_file_to_process align_down page_of ba_allocate_frame map_to oc beyond file m s mem =
      Inr ((fs, program_entry eh), st) \<and> distinct fs \<and> set fs \<subseteq> set (frame_iter s) \<and> length fs = length hs \<and>
    (\<forall>i < length hs. lookup (page_table st) (page_base (virt_addr (hs ! i))) = Some (fs ! i, user_flags) \<and>
      (\<forall>k \<le> unat (file_size (hs ! i)).
         active_memory st (virt_addr (hs ! i) + of_nat k) = file ! (unat (ph_offset (hs ! i)) + k)))"
proof -
  from elf_load_ok [OF assms(1-12), of oc mem] obtain fs st where
    ret: "map_elf_file_to_process align_down page_of ba_allocate_frame map_to oc beyond file m s mem = Inr ((fs, program_entry eh), st)"
    and fs: "subseq fs (frame_iter s)" "length fs = length hs"
    and lk: "lookup (page_table st) = lookup m ++ map_of (zip (map (page_base \<circ> virt_addr) hs) (map (\<lambda>f. (f, user_flags)) fs))"
    and mem: "\<forall>i < length hs. \<forall>k \<le> unat (file_size (hs ! i)).
       active_memory st (virt_addr (hs ! i) + of_nat k) = file ! (unat (ph_offset (hs ! i)) + k)"
    by blast
  have "lookup (page_table st) (page_base (virt_addr (hs ! i))) = Some (fs ! i, user_flags)" if "i < length hs" for i
    using zip_mapped_at [OF assms(11), of fs i "lookup m" user_flags] that fs(2) by (simp add: lk)
  moreover have "distinct fs" "set fs \<subseteq> set (frame_iter s)"
    using subseq_distinctD [OF fs(1) assms(13)] fs(1) by (auto dest: list_emb_set)
  ultimately show ?thesis
    using ret fs(2) mem by blast
qed

definition example_segment :: ProgramHeader where
  "example_segment = \<lparr>header_type = 1, ph_flags = 5, ph_offset = 120, virt_addr = 0x400078, ph_reserved = replicate 8 0,
     file_size = 2, mem_size = 2, ph_align = 0x1000\<rparr>"

definition example_header :: ElfHeader where
  "example_header = \<lparr>magic_num = MAGIC_NUM, bits = 2, endianness = 1, elf_header_version = 1, os_abi = 0,
     eh_reserved = replicate 8 0, elf_type = 2, instruction_set = 0x3E, elf_version = 1, program_entry = 0x400078,
     program_header_table = 64, section_header_table = 0, eh_flags = 0, header_size = 64, program_entry_size = 56,
     program_entry_count = 1, section_entry_size = 0, section_entry_count = 0, section_names_idx = 0\<rparr>"

text \<open>A file of one segment, with the machine code \<^verbatim>\<open>jmp .\<close> and one byte after it.\<close>

definition elf_file :: "ProgramHeader \<Rightarrow> u8 list" where
  "elf_file ph = elf_header_bytes example_header @ concat (map program_header_bytes [ph]) @ [0xEB, 0xFE, 0x99]"

lemma elf_file_header:
  assumes "length (ph_reserved ph) = 8"
  shows "from_slice (take 64 (elf_file ph)) = Inr example_header" and "length (elf_file ph) = 123"
    and "program_headers beyond (elf_file ph) 64 1 = [ph]"
    and "elf_file ph ! 120 = 0xEB" "elf_file ph ! 121 = 0xFE" "elf_file ph ! 122 = 0x99"
proof -
  have v: "valid_elf_header example_header"
    by (simp add: valid_elf_header_def example_header_def)
  have l: "length (elf_header_bytes example_header) = 64"
    by (rule elf_header.length_encode) (simp add: example_header_def MAGIC_NUM_def)
  have p: "length (program_header_bytes ph) = 56"
    by (rule program_header.length_encode [OF assms])
  show "from_slice (take 64 (elf_file ph)) = Inr example_header"
    using from_slice_bytes [OF v] by (simp add: elf_file_def l)
  show "length (elf_file ph) = 123" by (simp add: elf_file_def l p)
  show "program_headers beyond (elf_file ph) 64 1 = [ph]"
    using program_headers_layout [of "[ph]" beyond "elf_header_bytes example_header"] assms l
    by (simp add: elf_file_def)
  show "elf_file ph ! 120 = 0xEB" "elf_file ph ! 121 = 0xFE" "elf_file ph ! 122 = 0x99"
    by (simp_all add: elf_file_def nth_append l p)
qed

lemma table_map_to_succeeds: "map_to_succeeds table_map_to (\<lambda>m. m) free good"
  by (simp add: map_to_succeeds_def table_map_to_def)

lemma crate_docs: "align_down_doc (\<lambda>a n. a - a mod n)" "page_of_doc (\<lambda>a. Inr (page_base a))"
  by (simp_all add: align_down_doc_def page_of_doc_def page_base_def)

theorem elf_loads_one_page_segments_witness:
  "\<exists>f st. map_elf_file_to_process (\<lambda>a n. a - a mod n) (\<lambda>a. Inr (page_base a)) ba_allocate_frame table_map_to True (\<lambda>_. 0)
      (elf_file example_segment) Map.empty \<lparr>ba_memory_map = [], frame_iter = [0x5000, 0x6000, 0x7000, 0x8000]\<rparr> (\<lambda>_. 0) =
      Inr (([f], 0x400078), st) \<and>
    active_memory st 0x400078 = 0xEB \<and> active_memory st 0x400079 = 0xFE \<and> active_memory st 0x40007A = 0x99"
proof -
  let ?h = example_segment and ?s = "\<lparr>ba_memory_map = [], frame_iter = [0x5000, 0x6000, 0x7000, 0x8000]\<rparr>"
  have r: "length (ph_reserved ?h) = 8" by (simp add: example_segment_def)
  note f = elf_file_header [OF r]
  have hs: "[?h] = loadable (program_headers (\<lambda>_. 0) (elf_file ?h) (unat (program_header_table example_header))
      (unat (program_entry_count example_header)))"
    using f(3) [of "\<lambda>_. 0"] by (simp add: example_header_def example_segment_def)
  have seg: "one_page_segment (elf_file ?h) ?h"
    unfolding one_page_segment_def f(2) by (simp add: example_segment_def)
  have "unat (program_header_table example_header) < length (elf_file ?h)"
    by (simp add: f(2) example_header_def)
  from elf_loads_one_page_segments [OF crate_docs table_map_to_contract table_map_to_succeeds _ _ f(1) this hs,
      where m = Map.empty and s = ?s and oc = True and mem = "\<lambda>_. 0"] seg
  obtain fs st where run: "map_elf_file_to_process (\<lambda>a n. a - a mod n) (\<lambda>a. Inr (page_base a)) ba_allocate_frame table_map_to True (\<lambda>_. 0)
      (elf_file ?h) Map.empty ?s (\<lambda>_. 0) = Inr ((fs, program_entry example_header), st)" and fs: "length fs = 1"
    and mem: "\<forall>k \<le> unat (file_size ?h). active_memory st (virt_addr ?h + of_nat k) = elf_file ?h ! (unat (ph_offset ?h) + k)"
    by (auto simp: f(2))
  obtain g where "fs = [g]" using fs by (cases fs) auto
  moreover have "active_memory st 0x400078 = 0xEB" "active_memory st 0x400079 = 0xFE" "active_memory st 0x40007A = 0x99"
    using mem [rule_format, of 0] mem [rule_format, of 1] mem [rule_format, of 2] f(4-6)
    by (simp_all add: example_segment_def)
  ultimately show ?thesis
    using run by (auto simp: example_header_def)
qed

text \<open>The pages of a segment are all mapped at the segment's first address.\<close>

context frame_allocator
begin

lemma alloc_second_page:
  assumes ad: "align_down_doc align_down" and po: "page_of_doc page_of" and v: "virt_addr h < 0x800000000000"
    and "map_to_refuses map_to lookup" and "inv (allocator st)" and "free (allocator st) \<noteq> []"
    and "page_base (virt_addr h) + 0x1000 \<notin> regions st"
    and "lookup (page_table st) (page_base (virt_addr h)) \<noteq> None"
  shows "alloc_page align_down page_of alloc map_to oc h 1 st = Inl (UnwrapFailed ''called `Result::unwrap()` on an `Err` value'')"
proof -
  obtain f fs where free: "free (allocator st) = f # fs"
    using assms(6) by (cases "free (allocator st)") auto
  obtain s1 where s1: "alloc (allocator st) = Inr (Some f, s1)"
    using alloc_Cons [OF assms(5) free] by blast
  obtain m s where ms: "map_to (page_base (virt_addr h)) f user_flags (page_table st) s1 = Inr (Inl PageAlreadyMapped, m, s)"
    using assms(4,8) unfolding map_to_refuses_def by blast
  have pg: "align_down (virt_addr h) 0x1000 = page_base (virt_addr h)" "page_of (virt_addr h) = Inr (page_base (virt_addr h))"
    using ad po v by (simp_all add: align_down_doc_def page_of_doc_def page_base_def)
  have "unat (page_base (virt_addr h)) < 0x800000000000"
    using v by (simp add: unat_page_base word_less_nat_alt)
  then have ck: "add_ck oc 0x1000 (page_base (virt_addr h)) = Inr (0x1000 + page_base (virt_addr h))"
    by (intro add_ck_ok) simp
  have ck1: "mul_ck oc 1 (0x1000 :: u64) = Inr 0x1000"
    by (simp add: mul_ck_def)
  have "0x1000 + page_base (virt_addr h) \<notin> regions st"
    using assms(7) by (simp only: add.commute not_False_eq_True)
  then show ?thesis
    using s1 ms by (simp add: alloc_page_def ck ck1 pg)
qed

lemma load_large_segment:
  assumes "align_down_doc align_down" and "page_of_doc page_of" and v: "virt_addr h < 0x800000000000"
    and "map_to_contract map_to lookup free inv" and "map_to_succeeds map_to lookup free inv"
    and "map_to_refuses map_to lookup"
    and "page_base (virt_addr h) \<notin> regions st" and "page_base (virt_addr h) + 0x1000 \<notin> regions st"
    and "lookup (page_table st) (page_base (virt_addr h)) = None"
    and "inv (allocator st)" and "5 \<le> length (free (allocator st))"
    and "header_type h = type_u32 Load" and "0x1000 \<le> mem_size h"
  shows "load_segment align_down page_of alloc map_to oc file h st =
    Inl (UnwrapFailed ''called `Result::unwrap()` on an `Err` value'')"
proof -
  have "4 \<le> length (free (allocator st))" using assms(11) by simp
  from alloc_first_page [OF assms(1,2) v assms(4,5,7,9,10) this, of oc] obtain m s where
    first: "alloc_page align_down page_of alloc map_to oc h 0 st =
      Inr (st\<lparr>frames := frames st @ [hd (free (allocator st))],
              regions := insert (page_base (virt_addr h)) (regions st), page_table := m, allocator := s\<rparr>)" (is "_ = Inr ?st")
    and rest: "lookup m (page_base (virt_addr h)) \<noteq> None" "inv s" "length (free (allocator st)) \<le> length (free s) + 4"
    by auto
  have "alloc_page align_down page_of alloc map_to oc h 1 ?st = Inl (UnwrapFailed ''called `Result::unwrap()` on an `Err` value'')"
    by (rule alloc_second_page [OF assms(1-3,6)]) (use rest assms(8,11) in auto)
  moreover obtain n where "unat (mem_size h div 0x1000 + 1) = Suc (Suc n)"
    by (rule that [of "unat (mem_size h) div 4096 - 1"])
      (use assms(13) unat_less_u64 [of "mem_size h"] in \<open>simp add: unat_word_ariths unat_div word_le_nat_alt\<close>)
  moreover have "[0 ..< Suc (Suc n)] = 0 # 1 # [2 ..< Suc (Suc n)]"
    by (simp add: upt_conv_Cons numeral_2_eq_2)
  ultimately show ?thesis
    using assms(12) first by (simp add: load_segment_def Let_def del: upt_Suc)
qed

end

lemma load_segment_skip: "header_type h \<noteq> type_u32 Load \<Longrightarrow> load_segment align_down page_of allocate_frame map_to oc file h st = Inr st"
  by (simp add: load_segment_def)

lemma load_segments_filter:
  "foldE (load_segment align_down page_of allocate_frame map_to oc file) hs st =
   foldE (load_segment align_down page_of allocate_frame map_to oc file) (loadable hs) st"
proof (induction hs arbitrary: st)
  case (Cons h hs)
  then have "foldE (load_segment align_down page_of allocate_frame map_to oc file) hs =
    foldE (load_segment align_down page_of allocate_frame map_to oc file) (loadable hs)"
    by blast
  then show ?case by (simp add: load_segment_skip del: type_u32.simps)
qed simp

text \<open>C34: A file whose first loadable segment takes 4 KiB or more of memory is never loaded: the loader maps every
  page of a segment at the address of the first one, and panics when the page table reports that it is
  mapped already.\<close>

theorem elf_large_segment_panics:
  assumes "align_down_doc align_down" and "page_of_doc page_of"
    and "map_to_contract map_to lookup frame_iter (\<lambda>_. True)" and "map_to_succeeds map_to lookup frame_iter (\<lambda>_. True)"
    and "map_to_refuses map_to lookup"
    and "64 \<le> length file" and "from_slice (take 64 file) = Inr eh"
    and "unat (program_header_table eh) < length file"
    and "loadable (program_headers beyond file (unat (program_header_table eh)) (unat (program_entry_count eh))) = h # hs"
    and "0x1000 \<le> mem_size h" and "virt_addr h < 0x800000000000"
    and "lookup m (page_base (virt_addr h)) = None" and "5 \<le> length (frame_iter s)"
  shows "map_elf_file_to_process align_down page_of ba_allocate_frame map_to oc beyond file m s mem =
    Inl (UnwrapFailed ''called `Result::unwrap()` on an `Err` value'')"
proof -
  let ?st = "\<lparr>regions = {}, frames = [], page_table = m, allocator = s, active_memory = mem\<rparr>"
  have "h \<in> set (h # hs)" by simp
  then have "header_type h = type_u32 Load"
    unfolding assms(9) [symmetric] by (simp only: set_filter mem_Collect_eq)
  then have "load_segment align_down page_of ba_allocate_frame map_to oc file h ?st =
    Inl (UnwrapFailed ''called `Result::unwrap()` on an `Err` value'')"
    by (intro buddy.load_large_segment [OF assms(1,2,11,3,4,5)]) (use assms(10,12,13) in simp_all)
  then have "foldE (load_segment align_down page_of ba_allocate_frame map_to oc file)
      (program_headers beyond file (unat (program_header_table eh)) (unat (program_entry_count eh))) ?st =
    Inl (UnwrapFailed ''called `Result::unwrap()` on an `Err` value'')"
    by (subst load_segments_filter) (simp add: assms(9) del: type_u32.simps)
  with assms(6-8) show ?thesis
    by (simp add: map_elf_file_to_process_def slice_ck_ok index_ck_ok)
qed

theorem elf_large_segment_panics_witness:
  "map_elf_file_to_process (\<lambda>a n. a - a mod n) (\<lambda>a. Inr (page_base a)) ba_allocate_frame table_map_to True (\<lambda>_. 0)
      (elf_file (example_segment\<lparr>mem_size := 0x2000\<rparr>)) Map.empty
      \<lparr>ba_memory_map = [], frame_iter = [0x5000, 0x6000, 0x7000, 0x8000, 0x9000]\<rparr> (\<lambda>_. 0) =
    Inl (UnwrapFailed ''called `Result::unwrap()` on an `Err` value'')"
proof -
  let ?h = "example_segment\<lparr>mem_size := 0x2000\<rparr>"
  have r: "length (ph_reserved ?h) = 8" by (simp add: example_segment_def)
  have "loadable (program_headers (\<lambda>_. 0) (elf_file ?h) (unat (program_header_table example_header))
      (unat (program_entry_count example_header))) = ?h # []"
    using elf_file_header(3) [OF r, of "\<lambda>_. 0"] by (simp add: example_header_def example_segment_def)
  from elf_large_segment_panics [OF crate_docs table_map_to_contract table_map_to_succeeds _ _ elf_file_header(1) [OF r] _ this]
  show ?thesis
    by (simp add: elf_file_header(2) [OF r] map_to_refuses_def table_map_to_def)
      (simp add: example_header_def example_segment_def)
qed

end
