(* ===== verification/Spawn.thy ===== *)
theory Spawn
  imports Process Elf
begin

text \<open>
  \<^verbatim>\<open>Process::spawn_from_file\<close> of \<^verbatim>\<open>src/process.rs\<close>: a new page table, the user stack, and the segments of the
  file copied while the new page table is loaded. It composes \<open>Process\<close> and \<open>Elf\<close>.
\<close>

text \<open>What is used of the crate \<^verbatim>\<open>x86_64\<close>; \<open>x_mapper_new\<close> is \<^verbatim>\<open>OffsetPageTable::new\<close> on the new level 4 table and the tables it
  refers to.\<close>

record ('e, 'f, 'm, 's) x86_crate =
  x_set_addr :: "u64 \<Rightarrow> page_flag set \<Rightarrow> 'e"
  x_entry_addr :: "'e \<Rightarrow> u64"
  x_unused :: 'e
  x_start_address :: "'f \<Rightarrow> u64"
  x_translate_addr :: "u64 \<Rightarrow> u64 option"
  x_mapper_new :: "'e page_table \<Rightarrow> 'e tables \<Rightarrow> u64 \<Rightarrow> 'm"
  x_page_range :: "u64 \<Rightarrow> u64 \<Rightarrow> u64 list"
  x_map_to :: "('f, 'm, 's) map_to_fn"
  x_containing_address :: "u64 \<Rightarrow> u64"
  x_align_down :: "u64 \<Rightarrow> u64 \<Rightarrow> u64"
  x_page_of :: "u64 \<Rightarrow> u64 rust"

text \<open>The machine as far as spawning changes it. \<open>k_memory t\<close> is memory as seen through the level 4 table in frame \<open>t\<close>.\<close>

record ('e, 's) spawn_machine =
  k_tables :: "'e tables"
  k_frames :: 's
  k_cr3 :: "u64 \<times> u64"
  k_rflags :: u64
  k_memory :: "u64 \<Rightarrow> u64 \<Rightarrow> u8"

datatype ProcessSpawnError = MapFail

definition write_cr3 :: "u64 \<Rightarrow> ('e, 's) spawn_machine \<Rightarrow> ('e, 's) spawn_machine" where
  "write_cr3 frame k = k\<lparr>k_cr3 := (frame, snd (k_cr3 k))\<rparr>"

definition interrupts_disable :: "('e, 's) spawn_machine \<Rightarrow> ('e, 's) spawn_machine" where
  "interrupts_disable k = k\<lparr>k_rflags := k_rflags k AND NOT IF_bit\<rparr>"

definition interrupts_enable :: "('e, 's) spawn_machine \<Rightarrow> ('e, 's) spawn_machine" where
  "interrupts_enable k = k\<lparr>k_rflags := k_rflags k OR IF_bit\<rparr>"

text \<open>\<open>table_box\<close> is the address of the box that holds the new level 4 table, \<open>beyond\<close> the bytes after the file.\<close>

definition spawn_from_file ::
  "('e, 'f, 'm, 's) x86_crate \<Rightarrow> bool \<Rightarrow> ('s \<Rightarrow> ('f option \<times> 's) rust) \<Rightarrow> offset_page_table option \<Rightarrow> u64 \<Rightarrow> (nat \<Rightarrow> u8) \<Rightarrow>
   u8 list \<Rightarrow> ('e, 's) spawn_machine \<Rightarrow> ((ProcessSpawnError + 'f Process) \<times> 'm \<times> ('e, 's) spawn_machine) rust" where
  "spawn_from_file x oc allocate_frame MAPPER table_box beyond file k =
     bindE (expect ''mapper not initialized'' MAPPER) (\<lambda>mapper.
     bindE (active_level_4_table oc (fst (k_cr3 k)) (phys_offset mapper)) (\<lambda>l4.
     bindE (new_page_table oc (x_set_addr x) (x_entry_addr x) (x_unused x) allocate_frame (x_start_address x)
         (k_tables k l4) mapper (k_tables k) (k_frames k)) (\<lambda>(r, tables, s).
     bindE (expect ''failed to create page table'' r) (\<lambda>page_table.
     bindE (expect ''called `Option::unwrap()` on a `None` value'' (x_translate_addr x table_box)) (\<lambda>page_table_addr.
     bindE (map_stack (x_page_range x) allocate_frame (x_map_to x) (x_mapper_new x page_table tables (phys_offset mapper)) s) (\<lambda>(m, s).
     let k = interrupts_disable (k\<lparr>k_tables := tables\<rparr>);
         current_table_frame = fst (k_cr3 k);
         k = write_cr3 (x_containing_address x page_table_addr) k in
     bindE (map_elf_file_to_process (x_align_down x) (x_page_of x) allocate_frame (x_map_to x) oc beyond file m s
         (k_memory k (fst (k_cr3 k)))) (\<lambda>((fs, entry_point), st).
     let k = k\<lparr>k_frames := allocator st, k_memory := (k_memory k)(fst (k_cr3 k) := active_memory st)\<rparr>;
         k = interrupts_enable (write_cr3 current_table_frame k) in
     Inr (Inr \<lparr>process_state = None, page_table_addr = page_table_addr, entry_offset = entry_point, regions = fs\<rparr>, loader.page_table st, k))))))))"

section \<open>Each step succeeds\<close>

text \<open>The new level 4 table and the tables after \<^verbatim>\<open>new_page_table\<close>, when the two first free frames are \<open>f1\<close> and \<open>f2\<close>.\<close>

lemma new_page_table_progress:
  assumes doc: "entry_doc set_addr entry_addr" and frames: "frame_iter s = f1 # f2 # fs" "start_address f1 AND 0xFFF = 0" "start_address f2 AND 0xFFF = 0"
    and bounds: "unat (start_address f1) + unat (phys_offset mapper) < 2 ^ 64" "unat (start_address f2) + unat (phys_offset mapper) < 2 ^ 64"
      "\<forall>e. unat (entry_addr e) + unat (phys_offset mapper) < 2 ^ 64"
  shows "\<exists>pt tables'. new_page_table oc set_addr entry_addr unused ba_allocate_frame start_address cur mapper tables s =
    Inr (Some pt, tables', s\<lparr>frame_iter := fs\<rparr>)"
  using bounds by (simp add: new_page_table_def ba_allocate_frame_def frames(1) add_ck_ok Let_def)

context frame_allocator
begin

lemma map_heap_pages_progress:
  assumes "map_to_contract map_to lookup free inv" and "map_to_succeeds map_to lookup free inv"
  shows "inv s \<Longrightarrow> distinct pages \<Longrightarrow> \<forall>p \<in> set pages. lookup m p = None \<Longrightarrow> 4 * length pages \<le> length (free s) \<Longrightarrow>
    \<exists>m' s' fs. map_heap_pages alloc map_to fl pages m s = Inr (Inr (), m', s') \<and> length fs = length pages \<and> inv s' \<and>
      subseq (fs @ free s') (free s) \<and> length (free s) \<le> length (free s') + 4 * length pages \<and>
      lookup m' = lookup m ++ map_of (zip pages (map (\<lambda>f. (f, fl)) fs))"
proof (induction pages arbitrary: m s)
  case Nil
  then show ?case by (auto intro: exI [of _ "[]"])
next
  case (Cons p ps)
  then obtain f fr where free: "free s = f # fr" by (cases "free s") auto
  obtain s1 where s1: "alloc s = Inr (Some f, s1)" "inv s1" "free s1 = fr"
    using alloc_Cons [OF Cons.prems(1) free] by blast
  have "3 \<le> length (free s1)" "lookup m p = None" using Cons.prems free s1(3) by simp_all
  with assms(2) s1(2) obtain m2 s2 where mt: "map_to p f fl m s1 = Inr (Inr (), m2, s2)" "length (free s1) \<le> length (free s2) + 3"
    unfolding map_to_succeeds_def by blast
  note c = map_to_contractD [OF assms(1) s1(2) mt(1)]
  have "\<exists>m' s' fs. map_heap_pages alloc map_to fl ps m2 s2 = Inr (Inr (), m', s') \<and> length fs = length ps \<and> inv s' \<and>
      subseq (fs @ free s') (free s2) \<and> length (free s2) \<le> length (free s') + 4 * length ps \<and>
      lookup m' = lookup m2 ++ map_of (zip ps (map (\<lambda>f. (f, fl)) fs))"
    by (rule Cons.IH) (use Cons.prems free s1(3) mt(2) c(2,3) in auto)
  then obtain m' s' fs where r: "map_heap_pages alloc map_to fl ps m2 s2 = Inr (Inr (), m', s')" "length fs = length ps" "inv s'"
      "subseq (fs @ free s') (free s2)" "length (free s2) \<le> length (free s') + 4 * length ps"
      "lookup m' = lookup m2 ++ map_of (zip ps (map (\<lambda>f. (f, fl)) fs))"
    by blast
  obtain j where "free s2 = drop j (free s1)" using c(4) by blast
  with r(4) have sub: "subseq ((f # fs) @ free s') (free s)"
    using subseq_drop [of j fr] subseq_order.order_trans by (auto simp: free s1(3))
  have lk: "lookup m' = lookup m ++ map_of (zip (p # ps) (map (\<lambda>f. (f, fl)) (f # fs)))"
    using Cons.prems(2) r(2,6) c(2) by (simp add: map_add_upd_left)
  have run: "map_heap_pages alloc map_to fl (p # ps) m s = Inr (Inr (), m', s')"
    using s1(1) mt(1) r(1) by simp
  show ?case
    by (rule exI [of _ m'], rule exI [of _ s'], rule exI [of _ "f # fs"], intro conjI run sub lk r(3))
      (use r(2,5) mt(2) free s1(3) in simp_all)
qed

end

definition stack_pages :: "u64 list" where
  "stack_pages = map (\<lambda>i. 0x800000 + of_nat (4096 * i)) [0 ..< 17]"

lemma length_stack_pages: "length stack_pages = 17"
  by (simp add: stack_pages_def del: upt_rec_numeral)

lemma distinct_stack_pages: "distinct stack_pages"
proof -
  have "i = j" if "i < 17" "j < 17" "0x800000 + of_nat (4096 * i) = (0x800000 + of_nat (4096 * j) :: u64)" for i j :: nat
  proof -
    have "unat (of_nat (4096 * i) :: u64) = unat (of_nat (4096 * j) :: u64)" using that(3) by simp
    then show ?thesis using that(1,2) by (simp only: unat_page)
  qed
  then show ?thesis unfolding stack_pages_def by (auto simp: distinct_map inj_on_def simp del: upt_rec_numeral of_nat_mult)
qed

lemma stack_pages_range: "page_range_doc page_range \<Longrightarrow> page_range USERSPACE_STACK_BASE USERSPACE_STACK = stack_pages"
  unfolding page_range_doc_def by (simp add: stack_pages_eq stack_pages_def list_eq_iff_nth_eq algebra_simps del: upt_rec_numeral)

lemma map_stack_ok:
  assumes "page_range_doc page_range" and "map_to_contract map_to lookup frame_iter (\<lambda>_. True)"
    and "map_to_succeeds map_to lookup frame_iter (\<lambda>_. True)" and "\<forall>p \<in> set stack_pages. lookup m p = None" and "68 \<le> length (frame_iter s)"
  shows "\<exists>m' s' fs. map_stack page_range ba_allocate_frame map_to m s = Inr (m', s') \<and> length fs = 17 \<and>
    subseq (fs @ frame_iter s') (frame_iter s) \<and> length (frame_iter s) \<le> length (frame_iter s') + 68 \<and>
    lookup m' = lookup m ++ map_of (zip stack_pages (map (\<lambda>f. (f, user_flags)) fs))"
proof -
  have "4 * length stack_pages \<le> length (frame_iter s)" using assms(5) by (simp add: length_stack_pages)
  from buddy.map_heap_pages_progress [OF assms(2,3) TrueI distinct_stack_pages assms(4) this, of user_flags]
  show ?thesis
    unfolding map_stack_def stack_pages_range [OF assms(1)] map_stack_pages_eq length_stack_pages by auto
qed

lemma zip_unmapped:
  "length fs = length pages \<Longrightarrow> p \<notin> set pages \<Longrightarrow> (m ++ map_of (zip pages (map (\<lambda>f. (f, fl)) fs))) p = m p"
  by (subst map_add_def, subst iffD2 [OF map_of_zip_is_None]) simp_all

lemma subseq_behind: "subseq (xs @ ys) zs \<Longrightarrow> subseq ws ys \<Longrightarrow> subseq (xs @ ws) (z1 # z2 # zs)"
  using subseq_order.order_trans [OF list_emb_append_mono [OF subseq_order.order_refl], of ws ys xs zs] by (simp add: list_emb_Cons)

lemma spawn_run:
  fixes k :: "('e, 'f buddy_allocator) spawn_machine"
  assumes crate: "entry_doc (x_set_addr x) (x_entry_addr x)" "page_range_doc (x_page_range x)" "align_down_doc (x_align_down x)" "page_of_doc (x_page_of x)"
      "map_to_contract (x_map_to x) lookup frame_iter (\<lambda>_. True)" "map_to_succeeds (x_map_to x) lookup frame_iter (\<lambda>_. True)"
    and addresses: "\<forall>f. x_start_address x f AND 0xFFF = 0 \<and> unat (x_start_address x f) + unat (phys_offset mapper) < 2 ^ 64"
      "\<forall>e. unat (x_entry_addr x e) + unat (phys_offset mapper) < 2 ^ 64" "unat (fst (k_cr3 k)) + unat (phys_offset mapper) < 2 ^ 64"
      "x_translate_addr x table_box = Some table_addr"
    and frames: "distinct (frame_iter (k_frames k))" "70 + 4 * length hs \<le> length (frame_iter (k_frames k))"
    and elf: "length file < 2 ^ 63" "64 \<le> length file" "from_slice (take 64 file) = Inr eh" "unat (program_header_table eh) < length file"
      "hs = loadable (program_headers beyond file (unat (program_header_table eh)) (unat (program_entry_count eh)))"
      "\<forall>h \<in> set hs. one_page_segment file h" "distinct (stack_pages @ map (page_base \<circ> virt_addr) hs)"
    and blank: "\<forall>pt tables p. p \<in> set stack_pages \<union> (page_base \<circ> virt_addr) ` set hs \<longrightarrow>
      lookup (x_mapper_new x pt tables (phys_offset mapper)) p = None"
  shows "\<exists>pt tables m k' sf ef. spawn_from_file x oc ba_allocate_frame (Some mapper) table_box beyond file k =
      Inr (Inr \<lparr>process_state = None, page_table_addr = table_addr, entry_offset = program_entry eh, regions = ef\<rparr>, m, k') \<and>
    length sf = 17 \<and> length ef = length hs \<and> subseq (sf @ ef) (frame_iter (k_frames k)) \<and>
    lookup m = lookup (x_mapper_new x pt tables (phys_offset mapper)) ++ map_of (zip stack_pages (map (\<lambda>f. (f, user_flags)) sf)) ++
      map_of (zip (map (page_base \<circ> virt_addr) hs) (map (\<lambda>f. (f, user_flags)) ef)) \<and>
    (\<forall>i < length hs. \<forall>j \<le> unat (file_size (hs ! i)).
      k_memory k' (x_containing_address x table_addr) (virt_addr (hs ! i) + of_nat j) = file ! (unat (ph_offset (hs ! i)) + j)) \<and>
    k_cr3 k' = k_cr3 k \<and> k_rflags k' AND IF_bit = IF_bit"
proof -
  let ?off = "phys_offset mapper" and ?s = "k_frames k" and ?pages = "map (page_base \<circ> virt_addr) hs"
  obtain f1 f2 fs where fs: "frame_iter ?s = f1 # f2 # fs"
    using frames(2) by (cases "frame_iter ?s" rule: remdups_adj.cases) auto
  have l4: "active_level_4_table oc (fst (k_cr3 k)) ?off = Inr (?off + fst (k_cr3 k))"
    unfolding active_level_4_table_def using addresses(3) by (intro add_ck_ok) simp
  obtain pt tables where pt: "new_page_table oc (x_set_addr x) (x_entry_addr x) (x_unused x) ba_allocate_frame (x_start_address x)
      (k_tables k (?off + fst (k_cr3 k))) mapper (k_tables k) ?s = Inr (Some pt, tables, ?s\<lparr>frame_iter := fs\<rparr>)"
    using new_page_table_progress [OF crate(1) fs] addresses(1,2) by blast
  let ?m = "x_mapper_new x pt tables ?off"
  obtain m1 s1 sf where st: "map_stack (x_page_range x) ba_allocate_frame (x_map_to x) ?m (?s\<lparr>frame_iter := fs\<rparr>) = Inr (m1, s1)"
    "length sf = 17" "subseq (sf @ frame_iter s1) fs" "length fs \<le> length (frame_iter s1) + 68"
    "lookup m1 = lookup ?m ++ map_of (zip stack_pages (map (\<lambda>f. (f, user_flags)) sf))"
    using map_stack_ok [OF crate(2,5,6), of ?m "?s\<lparr>frame_iter := fs\<rparr>"] blank frames(2) fs by auto
  have "page_base (virt_addr h) \<notin> set stack_pages" if "h \<in> set hs" for h using elf(7) that by auto
  then have seg: "\<forall>h \<in> set hs. one_page_segment file h \<and> lookup m1 (page_base (virt_addr h)) = None"
    using elf(6) blank st(2) unfolding st(5) by (simp add: zip_unmapped length_stack_pages)
  have n: "4 * length hs \<le> length (frame_iter s1)" using frames(2) fs st(4) by simp
  have dist: "distinct ?pages" using elf(7) by simp
  from elf_load_ok [OF crate(3-6) elf(1-5) seg dist n, of oc "k_memory k (x_containing_address x table_addr)"]
  obtain ef st' where el: "map_elf_file_to_process (x_align_down x) (x_page_of x) ba_allocate_frame (x_map_to x) oc beyond file m1 s1
      (k_memory k (x_containing_address x table_addr)) = Inr ((ef, program_entry eh), st')"
    "subseq ef (frame_iter s1)" "length ef = length hs"
    "lookup (loader.page_table st') = lookup m1 ++ map_of (zip ?pages (map (\<lambda>f. (f, user_flags)) ef))"
    and mem: "\<forall>i < length hs. \<forall>j \<le> unat (file_size (hs ! i)). active_memory st' (virt_addr (hs ! i) + of_nat j) = file ! (unat (ph_offset (hs ! i)) + j)"
    by blast
  obtain k' where "spawn_from_file x oc ba_allocate_frame (Some mapper) table_box beyond file k =
      Inr (Inr \<lparr>process_state = None, page_table_addr = table_addr, entry_offset = program_entry eh, regions = ef\<rparr>, loader.page_table st', k')"
    "k_memory k' (x_containing_address x table_addr) = active_memory st'" "k_cr3 k' = k_cr3 k" "k_rflags k' AND IF_bit = IF_bit"
    using l4 pt st(1) el(1) addresses(4)
    by (simp add: spawn_from_file_def expect_def Let_def write_cr3_def interrupts_disable_def interrupts_enable_def)
  then show ?thesis
    using st(2,5) el(3,4) mem subseq_behind [OF st(3) el(2), of f1 f2] unfolding fs by metis
qed

section \<open>Properties\<close>


definition example_crate :: "(u64, u64, u64 \<rightharpoonup> u64 \<times> page_flag set, u64 buddy_allocator) x86_crate" where
  "example_crate = \<lparr>x_set_addr = (\<lambda>a _. a), x_entry_addr = (\<lambda>e. e), x_unused = 0, x_start_address = push_bit 12, x_translate_addr = Some,
     x_mapper_new = (\<lambda>_ _ _. Map.empty), x_page_range = inclusive_pages, x_map_to = table_map_to, x_containing_address = (\<lambda>a. a),
     x_align_down = (\<lambda>a n. a - a mod n), x_page_of = (\<lambda>a. Inr (page_base a))\<rparr>"

definition example_kernel :: "(u64, u64 buddy_allocator) spawn_machine" where
  "example_kernel = \<lparr>k_tables = (\<lambda>_ _. 0), k_frames = \<lparr>ba_memory_map = [], frame_iter = map of_nat [1 ..< 75]\<rparr>, k_cr3 = (0x1000, 0),
     k_rflags = 0x202, k_memory = (\<lambda>_ _. 0)\<rparr>"

lemma low_bits_push: "push_bit 12 (f :: u64) AND 0xFFF = 0"
proof (rule bit_word_eqI)
  have m: "(0xFFF :: u64) = mask 12" by (simp add: mask_eq_exp_minus_1)
  show "bit (push_bit 12 f AND 0xFFF) n = bit (0 :: u64) n" for n unfolding m by (simp add: bit_simps)
qed

lemma distinct_small: "distinct (map of_nat [1 ..< 75] :: u64 list)"
  by (auto simp: distinct_map inj_on_def word_unat_eq_iff unat_of_nat_small simp del: upt_rec_numeral)

abbreviation example_mapper :: offset_page_table where
  "example_mapper \<equiv> \<lparr>level_4_table = 0x1000, phys_offset = 0\<rparr>"

lemma example_crate_doc:
  "entry_doc (x_set_addr example_crate) (x_entry_addr example_crate)" "page_range_doc (x_page_range example_crate)"
  "align_down_doc (x_align_down example_crate)" "page_of_doc (x_page_of example_crate)"
  "map_to_contract (x_map_to example_crate) (\<lambda>m. m) frame_iter (\<lambda>_. True)" "map_to_succeeds (x_map_to example_crate) (\<lambda>m. m) frame_iter (\<lambda>_. True)"
  using crate_docs table_map_to_contract table_map_to_succeeds by (simp_all add: example_crate_def entry_doc_def page_range_doc_def)

lemma example_addresses:
  "\<forall>f. x_start_address example_crate f AND 0xFFF = 0 \<and> unat (x_start_address example_crate f) + unat (phys_offset example_mapper) < 2 ^ 64"
  "\<forall>e. unat (x_entry_addr example_crate e) + unat (phys_offset example_mapper) < 2 ^ 64"
  "unat (fst (k_cr3 example_kernel)) + unat (phys_offset example_mapper) < 2 ^ 64"
  "x_translate_addr example_crate 0x9000 = Some 0x9000"
  using unat_less_u64 low_bits_push by (simp_all add: example_crate_def example_kernel_def)

lemma example_frames:
  "distinct (frame_iter (k_frames example_kernel))" "70 + 4 * length [example_segment] \<le> length (frame_iter (k_frames example_kernel))"
  using distinct_small by (simp_all add: example_kernel_def del: upt_rec_numeral)

lemma example_reserved: "length (ph_reserved example_segment) = 8"
  by (simp add: example_segment_def)

lemma example_base: "page_base (virt_addr example_segment) = 0x400000"
  by (simp add: page_base_def example_segment_def)

lemma example_elf:
  "length (elf_file example_segment) < 2 ^ 63" "64 \<le> length (elf_file example_segment)"
  "from_slice (take 64 (elf_file example_segment)) = Inr example_header"
  "unat (program_header_table example_header) < length (elf_file example_segment)"
  "[example_segment] = loadable (program_headers (\<lambda>_. 0) (elf_file example_segment) (unat (program_header_table example_header))
     (unat (program_entry_count example_header)))"
  "\<forall>h \<in> set [example_segment]. one_page_segment (elf_file example_segment) h"
  "distinct (stack_pages @ map (page_base \<circ> virt_addr) [example_segment])"
proof -
  note f = elf_file_header [OF example_reserved]
  show "length (elf_file example_segment) < 2 ^ 63" "64 \<le> length (elf_file example_segment)" by (simp_all add: f(2))
  show "from_slice (take 64 (elf_file example_segment)) = Inr example_header" by (rule f(1))
  show "unat (program_header_table example_header) < length (elf_file example_segment)" by (simp add: f(2) example_header_def)
  show "[example_segment] = loadable (program_headers (\<lambda>_. 0) (elf_file example_segment) (unat (program_header_table example_header))
     (unat (program_entry_count example_header)))"
    using f(3) [of "\<lambda>_. 0"] by (simp add: example_header_def example_segment_def)
  have "one_page_segment (elf_file example_segment) example_segment" unfolding one_page_segment_def f(2) by (simp add: example_segment_def)
  then show "\<forall>h \<in> set [example_segment]. one_page_segment (elf_file example_segment) h" by simp
  show "distinct (stack_pages @ map (page_base \<circ> virt_addr) [example_segment])"
    using distinct_stack_pages by (simp add: example_base) (simp add: stack_pages_def upt_eval)
qed

lemma example_blank:
  "\<forall>pt tables p. p \<in> set stack_pages \<union> (page_base \<circ> virt_addr) ` set [example_segment] \<longrightarrow>
     (\<lambda>m. m) (x_mapper_new example_crate pt tables (phys_offset example_mapper)) p = None"
  by (simp add: example_crate_def)


end
