(* ===== verification/Acpi.thy ===== *)
theory Acpi
  imports Utf8
begin

text \<open>
  \<^verbatim>\<open>src/acpi.rs\<close>: finding the firmware tables. Memory is read through the mapping of physical memory, as a
  function from virtual addresses to bytes; a reference to a packed structure is its address and the
  structure is decoded from the bytes there.
\<close>

unbundle bit_operations_syntax

section \<open>Tables\<close>

record RSDPDescriptor =
  rsdp_signature :: "u8 list"
  rsdp_checksum :: u8
  rsdp_oem_id :: "u8 list"
  rsdp_revision :: u8
  rsdt_address :: u32

record SDTHeader =
  sdt_signature :: "u8 list"
  sdt_length :: u32
  sdt_revision :: u8
  sdt_checksum :: u8
  sdt_oem_id :: "u8 list"
  oem_table_id :: "u8 list"
  oem_revision :: u32
  creator_id :: u32
  creator_revision :: u32

text \<open>An \<^verbatim>\<open>RSDT\<close> holds references: the address of its header and of every table it lists.\<close>

record RSDT =
  rsdt_header :: u64
  rsdt_tables :: "u64 list"

definition rsdp_at :: "(u64 \<Rightarrow> u8) \<Rightarrow> u64 \<Rightarrow> RSDPDescriptor" where
  "rsdp_at m a = \<lparr>rsdp_signature = bytes_at m a 8, rsdp_checksum = word_at m (a + 8) 1, rsdp_oem_id = bytes_at m (a + 9) 6,
     rsdp_revision = word_at m (a + 15) 1, rsdt_address = word_at m (a + 16) 4\<rparr>"

definition sdt_header_at :: "(u64 \<Rightarrow> u8) \<Rightarrow> u64 \<Rightarrow> SDTHeader" where
  "sdt_header_at m a = \<lparr>sdt_signature = bytes_at m a 4, sdt_length = word_at m (a + 4) 4, sdt_revision = word_at m (a + 8) 1,
     sdt_checksum = word_at m (a + 9) 1, sdt_oem_id = bytes_at m (a + 10) 6, oem_table_id = bytes_at m (a + 16) 8,
     oem_revision = word_at m (a + 24) 4, creator_id = word_at m (a + 28) 4, creator_revision = word_at m (a + 32) 4\<rparr>"

definition verify_checksum :: "bool \<Rightarrow> (u64 \<Rightarrow> u8) \<Rightarrow> u64 \<Rightarrow> bool rust" where
  "verify_checksum oc m a =
     bindE (foldE (\<lambda>byte checksum. add_ck oc checksum (ucast byte)) (bytes_at m a 20) (0 :: u32))
       (\<lambda>checksum. Inr (checksum AND 0xFF = 0))"

definition get_signature_str :: "(u64 \<Rightarrow> u8) \<Rightarrow> u64 \<Rightarrow> u8 list rust" where
  "get_signature_str m a = (let s = sdt_signature (sdt_header_at m a) in
     if utf8_ok s then Inr s else Inl (UnwrapFailed ''SDT has invalid signature''))"

definition get_length :: "(u64 \<Rightarrow> u8) \<Rightarrow> u64 \<Rightarrow> u32" where
  "get_length m a = sdt_length (sdt_header_at m a)"

definition from_header :: "bool \<Rightarrow> (u64 \<Rightarrow> u8) \<Rightarrow> u64 \<Rightarrow> u64 \<Rightarrow> RSDT rust" where
  "from_header oc m header physical_offset =
     bindE (add_ck oc header 36) (\<lambda>header_end_addr.
     bindE (sub_ck oc (get_length m header) 36) (\<lambda>l.
     let tables_count = l div 4 in
     bindE (foldE (\<lambda>i tables. bindE (add_ck oc (ucast (word_at m (header_end_addr + of_nat (4 * i)) 4 :: u32)) physical_offset)
                     (\<lambda>table. Inr (tables @ [table])))
              [0 ..< unat tables_count] []) (\<lambda>tables.
     Inr \<lparr>rsdt_header = header, rsdt_tables = tables\<rparr>)))"

section \<open>Finding the root pointer\<close>

definition RSDP_REGION :: "u64 list" where
  "RSDP_REGION = map (\<lambda>i. 0x80000 + of_nat (0x10 * i)) [0 ..< 0x8000]"

text \<open>\<^verbatim>\<open>b"RSD PTR "\<close>\<close>

definition rsd_ptr :: "u8 list" where
  "rsd_ptr = [0x52, 0x53, 0x44, 0x20, 0x50, 0x54, 0x52, 0x20]"

fun find_rsdp_in :: "bool \<Rightarrow> (u64 \<Rightarrow> u8) \<Rightarrow> u64 \<Rightarrow> u64 list \<Rightarrow> u64 option rust" where
  "find_rsdp_in oc m physical_offset [] = Inr None"
| "find_rsdp_in oc m physical_offset (phys_addr # rest) =
     bindE (add_ck oc physical_offset phys_addr) (\<lambda>addr.
     if bytes_at m addr 8 = rsd_ptr then
       bindE (verify_checksum oc m addr) (\<lambda>valid.
       if valid then
         (if rsdp_revision (rsdp_at m addr) = 0 then Inr (Some addr)
          else Inl (ExplicitPanic ''assertion `left == right` failed''))
       else find_rsdp_in oc m physical_offset rest)
     else find_rsdp_in oc m physical_offset rest)"

definition find_rsdp :: "bool \<Rightarrow> (u64 \<Rightarrow> u8) \<Rightarrow> u64 \<Rightarrow> u64 option rust" where
  "find_rsdp oc m physical_offset = find_rsdp_in oc m physical_offset RSDP_REGION"

definition get_rsdt :: "bool \<Rightarrow> (u64 \<Rightarrow> u8) \<Rightarrow> u64 option \<Rightarrow> u64 \<Rightarrow> RSDT rust" where
  "get_rsdt oc m RSDP physical_offset =
     bindE (expect ''No RSDP obtained yet'' RSDP) (\<lambda>rsdp.
     bindE (add_ck oc (ucast (rsdt_address (rsdp_at m rsdp))) physical_offset) (\<lambda>rsdt_header.
     from_header oc m rsdt_header physical_offset))"

text \<open>The two static cells \<open>RSDP\<close> and \<open>RSDT\<close> after initialisation; \<^verbatim>\<open>init_once\<close> keeps a value that is set.\<close>

record acpi =
  RSDP_cell :: "u64 option"
  RSDT_cell :: "RSDT option"

definition init_once :: "'a option \<Rightarrow> 'a \<Rightarrow> 'a option" where
  "init_once cell v = (case cell of None \<Rightarrow> Some v | Some w \<Rightarrow> Some w)"

definition acpi_init :: "bool \<Rightarrow> (u64 \<Rightarrow> u8) \<Rightarrow> u64 \<Rightarrow> acpi \<Rightarrow> acpi rust" where
  "acpi_init oc m phys_offset st =
     bindE (find_rsdp oc m phys_offset) (\<lambda>r.
     bindE (expect ''Failed to find RSDP signature in specified memory region'' r) (\<lambda>rsdp.
     let st = st\<lparr>RSDP_cell := init_once (RSDP_cell st) rsdp\<rparr> in
     bindE (get_rsdt oc m (RSDP_cell st) phys_offset) (\<lambda>rsdt.
     Inr (st\<lparr>RSDT_cell := init_once (RSDT_cell st) rsdt\<rparr>))))"

section \<open>The search\<close>

text \<open>The checksum loop never overflows and computes the sum of the bytes modulo 256.\<close>

lemma unat_u8: "unat (b :: u8) < 256"
  using unat_bound [of b] by (simp del: unsigned_less)

lemma checksum_fold:
  fixes bs :: "u8 list"
  assumes "unat c + 255 * length bs < 2 ^ 32"
  shows "foldE (\<lambda>byte checksum. add_ck oc checksum (ucast byte)) bs (c :: u32) = Inr (c + of_nat (sum_list (map unat bs)))"
  using assms
proof (induction bs arbitrary: c)
  case (Cons b bs)
  have b: "unat b < 256" using unat_bound [of b] by (simp del: unsigned_less)
  have ub: "unat (ucast b :: u32) = unat b" using b by (simp add: unsigned_ucast_eq take_bit_nat_eq_self)
  then have "unat (c + ucast b) = unat c + unat b"
    using Cons.prems b by (subst unat_add_small) simp_all
  with Cons b ub show ?case
    by (simp add: add_ck_ok add.assoc)
qed simp

lemma verify_checksum_eq:
  "verify_checksum oc m a = Inr (sum_list (map unat (bytes_at m a 20)) mod 256 = 0)"
proof -
  let ?s = "sum_list (map unat (bytes_at m a 20))"
  have "unat (of_nat ?s AND 0xFF :: u32) = ?s mod 256"
  proof -
    have "of_nat ?s AND 0xFF = (take_bit 8 (of_nat ?s) :: u32)"
      by (simp add: take_bit_eq_mask mask_eq_exp_minus_1)
    moreover have "?s < 2 ^ 32"
    proof -
      have "?s \<le> sum_list (map (\<lambda>_. 255) (bytes_at m a 20))"
        by (rule sum_list_mono) (use unat_u8 in \<open>simp add: less_Suc_eq_le [symmetric]\<close>)
      then show ?thesis by (simp add: map_replicate_const sum_list_replicate)
    qed
    ultimately show ?thesis
      by (simp add: unsigned_take_bit_eq take_bit_eq_mod unat_of_nat unat_mod)
  qed
  then show ?thesis
    by (simp add: verify_checksum_def checksum_fold word_unat_eq_iff)
qed

definition is_rsdp :: "(u64 \<Rightarrow> u8) \<Rightarrow> u64 \<Rightarrow> bool" where
  "is_rsdp m a \<longleftrightarrow> bytes_at m a 8 = rsd_ptr \<and> sum_list (map unat (bytes_at m a 20)) mod 256 = 0"

lemma find_rsdp_in_eq:
  assumes "\<forall>p \<in> set ps. unat off + unat p < 2 ^ 64"
  shows "find_rsdp_in oc m off ps = (case position (\<lambda>p. is_rsdp m (off + p)) ps of
      None \<Rightarrow> Inr None
    | Some i \<Rightarrow> if rsdp_revision (rsdp_at m (off + ps ! i)) = 0 then Inr (Some (off + ps ! i))
        else Inl (ExplicitPanic ''assertion `left == right` failed''))"
  using assms
  by (induction ps) (auto simp: add_ck_ok verify_checksum_eq is_rsdp_def split: option.split)

lemma nth_region: "i < 0x8000 \<Longrightarrow> RSDP_REGION ! i = 0x80000 + of_nat (0x10 * i)"
  "i < 0x8000 \<Longrightarrow> unat (RSDP_REGION ! i) = 0x80000 + 0x10 * i" "length RSDP_REGION = 0x8000"
proof -
  show r: "i < 0x8000 \<Longrightarrow> RSDP_REGION ! i = 0x80000 + of_nat (0x10 * i)"
    by (simp add: RSDP_REGION_def del: upt_rec_numeral of_nat_mult)
  show "i < 0x8000 \<Longrightarrow> unat (RSDP_REGION ! i) = 0x80000 + 0x10 * i"
    by (subst r) (simp_all add: unat_word_ariths unat_of_nat del: of_nat_mult)
  show "length RSDP_REGION = 0x8000"
    by (simp add: RSDP_REGION_def del: upt_rec_numeral)
qed

lemma mem_region: "p \<in> set RSDP_REGION \<longleftrightarrow> 0x80000 \<le> p \<and> p \<le> 0xFFFFF \<and> p mod 16 = 0"
proof
  assume "p \<in> set RSDP_REGION"
  then obtain i where "i < 0x8000" "p = RSDP_REGION ! i" by (auto simp: in_set_conv_nth nth_region(3))
  then have "unat p = 0x80000 + 0x10 * i" by (simp only: nth_region(2))
  with \<open>i < 0x8000\<close> show "0x80000 \<le> p \<and> p \<le> 0xFFFFF \<and> p mod 16 = 0"
    by (simp add: word_le_nat_alt word_unat_eq_iff unat_mod)
next
  assume "0x80000 \<le> p \<and> p \<le> 0xFFFFF \<and> p mod 16 = 0"
  then have p: "0x80000 \<le> unat p" "unat p \<le> 0xFFFFF" "unat p mod 16 = 0"
    by (simp_all add: word_le_nat_alt word_unat_eq_iff unat_mod)
  then have "unat p = 0x80000 + 0x10 * ((unat p - 0x80000) div 16)" and "(unat p - 0x80000) div 16 < 0x8000"
    by presburger+
  then have "p = RSDP_REGION ! ((unat p - 0x80000) div 16)"
    by (simp only: word_unat_eq_iff nth_region(2))
  then show "p \<in> set RSDP_REGION"
    using \<open>(unat p - 0x80000) div 16 < 0x8000\<close> nth_mem [of "(unat p - 0x80000) div 16" RSDP_REGION] by (simp add: nth_region(3))
qed

text \<open>C36: \<^verbatim>\<open>find_rsdp\<close> examines exactly the 16-byte aligned addresses of the region and decides on the first
  that carries the signature and a valid checksum: it is returned if its revision is 0, the kernel
  panics on any later ACPI revision, and the answer is \<open>None\<close> only if there is no such address.\<close>

theorem find_rsdp_first:
  assumes "unat off + 0x100000 \<le> 2 ^ 64"
  shows "case find_rsdp oc m off of
      Inr None \<Rightarrow> \<forall>p. 0x80000 \<le> p \<and> p \<le> 0xFFFFF \<and> p mod 16 = 0 \<longrightarrow> \<not> is_rsdp m (off + p)
    | Inr (Some a) \<Rightarrow> is_rsdp m a \<and> rsdp_revision (rsdp_at m a) = 0 \<and> a - off \<in> set RSDP_REGION \<and>
        (\<forall>p \<in> set RSDP_REGION. p < a - off \<longrightarrow> \<not> is_rsdp m (off + p))
    | Inl e \<Rightarrow> \<exists>p \<in> set RSDP_REGION. is_rsdp m (off + p) \<and> rsdp_revision (rsdp_at m (off + p)) \<noteq> 0"
proof -
  have "\<forall>p \<in> set RSDP_REGION. unat off + unat p < 2 ^ 64"
    using assms by (auto simp: mem_region word_le_nat_alt)
  note eq = find_rsdp_in_eq [OF this, of oc m]
  show ?thesis
  proof (cases "position (\<lambda>p. is_rsdp m (off + p)) RSDP_REGION")
    case None
    then have "\<forall>p \<in> set RSDP_REGION. \<not> is_rsdp m (off + p)"
      by (simp add: position_None)
    with None show ?thesis
      by (simp add: find_rsdp_def eq mem_region)
  next
    case (Some i)
    then have i: "i < 0x8000" "is_rsdp m (off + RSDP_REGION ! i)" "\<And>j. j < i \<Longrightarrow> \<not> is_rsdp m (off + RSDP_REGION ! j)"
      by (simp_all add: position_Some nth_region(3))
    have "\<not> is_rsdp m (off + p)" if "p \<in> set RSDP_REGION" "p < RSDP_REGION ! i" for p
    proof -
      from that(1) obtain j where "j < 0x8000" "p = RSDP_REGION ! j" by (auto simp: in_set_conv_nth nth_region(3))
      with that(2) i show ?thesis by (simp add: word_less_nat_alt nth_region(2))
    qed
    then show ?thesis
      using i Some nth_mem [of i RSDP_REGION] by (auto simp: find_rsdp_def eq nth_region(3))
  qed
qed

text \<open>Memory with a root pointer at the physical address \<open>0xF5A40\<close>.\<close>

definition example_rsdp :: "u8 \<Rightarrow> u64 \<Rightarrow> u8" where
  "example_rsdp revision a = (let k = unat (a - 0xF5A40) in
     if k < 20 then (rsd_ptr @ [0x7A - revision] @ [0, 0, 0, 0, 0, 0] @ [revision] @ [0x4C, 0x16, 0xFE, 0x07]) ! k else 0)"

theorem find_rsdp_first_witness:
  "find_rsdp True (example_rsdp 0) 0 = Inr (Some 0xF5A40) \<and> (\<exists>e. find_rsdp True (example_rsdp 2) 0 = Inl e)"
proof -
  have r: "(0xF5A40 :: u64) \<in> set RSDP_REGION" by (simp add: mem_region)
  have ok: "is_rsdp (example_rsdp v) 0xF5A40" and rev: "rsdp_revision (rsdp_at (example_rsdp v) 0xF5A40) = v"
    if "v = 0 \<or> v = 2" for v
    using that by (auto simp: is_rsdp_def bytes_at_def example_rsdp_def rsd_ptr_def rsdp_at_def word_at_def upt_eval)
  have uniq: "p = 0xF5A40" if "p \<in> set RSDP_REGION" "is_rsdp (example_rsdp v) p" for p v
  proof -
    let ?k = "unat (p - 0xF5A40)"
    have "bytes_at (example_rsdp v) p 8 ! 0 = rsd_ptr ! 0"
      using that(2) by (simp add: is_rsdp_def)
    then have R: "example_rsdp v p = 0x52" by (simp add: nth_bytes_at rsd_ptr_def)
    then have k: "?k < 20" by (auto simp: example_rsdp_def Let_def split: if_splits)
    have plus: "unat (0xF5A40 + of_nat n :: u64) = 0xF5A40 + n" if "n < 20" for n
      using that by (simp add: unat_word_ariths unat_of_nat)
    have "unat p = 0xF5A40 + ?k"
      using plus [OF k] by simp
    moreover have "unat p mod 16 = 0"
      using that(1) by (simp add: mem_region word_unat_eq_iff unat_mod)
    ultimately have "(0xF5A40 + ?k) mod 16 = 0" by simp
    then have "?k mod 16 = 0" using mod_add_left_eq [of "0xF5A40" 16 "unat (p - 0xF5A40)"] by simp
    with k have "?k = 0 \<or> ?k = 16" by presburger
    with R have "?k = 0" by (auto simp: example_rsdp_def Let_def rsd_ptr_def)
    then show ?thesis by (simp add: unat_eq_0)
  qed
  have "find_rsdp True (example_rsdp 0) 0 = Inr (Some 0xF5A40)"
    using find_rsdp_first [where off = 0 and oc = True and m = "example_rsdp 0"] uniq [of _ 0] ok [of 0] rev [of 0]
    by (auto simp: mem_region split: sum.splits option.splits)
  moreover have "\<exists>e. find_rsdp True (example_rsdp 2) 0 = Inl e"
    using find_rsdp_first [where off = 0 and oc = True and m = "example_rsdp 2"] ok [of 2] rev [of 2]
    by (auto dest!: uniq spec [of _ "0xF5A40"] split: sum.splits option.splits)
  ultimately show ?thesis by blast
qed

end
