(* ===== verification/Pci.thy ===== *)
theory Pci
  imports Acpi
begin

text \<open>
  \<^verbatim>\<open>src/pci.rs\<close>: the memory mapped configuration space of the PCI functions and its enumeration. References
  to configuration spaces are their addresses; \<open>config_space_at\<close> decodes one.
\<close>

section \<open>Structures\<close>

record MCFGEntry =
  config_space :: u64
  segment_group :: u16
  start_bus :: u8
  end_bus :: u8
  mcfg_reserved :: u32

record MCFGTable =
  mcfg_header :: u64
  mcfg_entries :: "MCFGEntry list"

record DeviceConfigurationSpace =
  vendor_id :: u16
  device_id :: u16
  command_register :: u16
  dev_status :: u16
  revision_id :: u8
  prog_if :: u8
  sub_class :: u8
  class_code :: u8
  cache_line_size :: u8
  latency_timer :: u8
  dev_header_type :: u8
  bist :: u8
  bars :: "u32 list"
  cis_ptr :: u32
  subsystem_vendor_id :: u16
  subsystem_id :: u16
  expansion_rom_base :: u32
  capabilities_ptr :: u8
  dev_reserved :: "u8 list"
  interrupt_line :: u8
  interrupt_pin :: u8
  min_grant :: u8
  max_latency :: u8

datatype DeviceType = Device u64 | PCIBridge | CardBusBridge

record DeviceIdentification =
  di_class :: u8
  di_subclass :: u8
  di_interface :: u8

definition mcfg_entry_at :: "(u64 \<Rightarrow> u8) \<Rightarrow> u64 \<Rightarrow> MCFGEntry" where
  "mcfg_entry_at m a = \<lparr>config_space = word_at m a 8, segment_group = word_at m (a + 8) 2, start_bus = word_at m (a + 10) 1,
     end_bus = word_at m (a + 11) 1, mcfg_reserved = word_at m (a + 12) 4\<rparr>"

definition config_space_at :: "(u64 \<Rightarrow> u8) \<Rightarrow> u64 \<Rightarrow> DeviceConfigurationSpace" where
  "config_space_at m a = \<lparr>vendor_id = word_at m a 2, device_id = word_at m (a + 2) 2, command_register = word_at m (a + 4) 2,
     dev_status = word_at m (a + 6) 2, revision_id = word_at m (a + 8) 1, prog_if = word_at m (a + 9) 1,
     sub_class = word_at m (a + 10) 1, class_code = word_at m (a + 11) 1, cache_line_size = word_at m (a + 12) 1,
     latency_timer = word_at m (a + 13) 1, dev_header_type = word_at m (a + 14) 1, bist = word_at m (a + 15) 1,
     bars = [word_at m (a + 16) 4, word_at m (a + 20) 4, word_at m (a + 24) 4, word_at m (a + 28) 4, word_at m (a + 32) 4, word_at m (a + 36) 4],
     cis_ptr = word_at m (a + 40) 4, subsystem_vendor_id = word_at m (a + 44) 2, subsystem_id = word_at m (a + 46) 2,
     expansion_rom_base = word_at m (a + 48) 4, capabilities_ptr = word_at m (a + 52) 1, dev_reserved = bytes_at m (a + 53) 7,
     interrupt_line = word_at m (a + 60) 1, interrupt_pin = word_at m (a + 61) 1, min_grant = word_at m (a + 62) 1,
     max_latency = word_at m (a + 63) 1\<rparr>"

definition get_identification :: "DeviceConfigurationSpace \<Rightarrow> DeviceIdentification" where
  "get_identification d = \<lparr>di_class = class_code d, di_subclass = sub_class d, di_interface = prog_if d\<rparr>"

definition get_bars :: "DeviceConfigurationSpace \<Rightarrow> u32 list" where
  "get_bars d = bars d"

text \<open>The header type is read from the common part of the configuration space, at the same offset.\<close>

definition device_type_from :: "(u64 \<Rightarrow> u8) \<Rightarrow> u64 \<Rightarrow> DeviceType option rust" where
  "device_type_from m addr = (let t = dev_header_type (config_space_at m addr) AND 0x7F in
     if t = 0x0 then Inr (Some (Device addr))
     else if t = 0x1 then Inr (Some PCIBridge)
     else if t = 0x2 then Inr (Some CardBusBridge)
     else if t = 0x7F then Inr None
     else Inl (ExplicitPanic ''Invalid header type detected''))"

fun as_device :: "DeviceType \<Rightarrow> u64 option" where
  "as_device (Device a) = Some a"
| "as_device _ = None"

fun as_pci_bridge :: "DeviceType \<Rightarrow> unit option" where
  "as_pci_bridge PCIBridge = Some ()"
| "as_pci_bridge _ = None"

fun as_cardbus_bridge :: "DeviceType \<Rightarrow> unit option" where
  "as_cardbus_bridge CardBusBridge = Some ()"
| "as_cardbus_bridge _ = None"

section \<open>The configuration table\<close>

definition mcfg_from_header :: "bool \<Rightarrow> (u64 \<Rightarrow> u8) \<Rightarrow> u64 \<Rightarrow> MCFGTable rust" where
  "mcfg_from_header oc m header =
     bindE (add_ck oc header 36) (\<lambda>header_end_addr.
     bindE (add_ck oc header_end_addr 8) (\<lambda>entries_start_addr.
     bindE (sub_ck oc (get_length m header) 36) (\<lambda>l.
     bindE (sub_ck oc l 8) (\<lambda>l.
     let entry_count = l div 16 in
     Inr \<lparr>mcfg_header = header,
          mcfg_entries = map (\<lambda>i. mcfg_entry_at m (entries_start_addr + of_nat (16 * i))) [0 ..< unat entry_count]\<rparr>))))"

definition get_entries :: "MCFGTable \<Rightarrow> MCFGEntry list" where
  "get_entries t = mcfg_entries t"

text \<open>\<^verbatim>\<open>"MCFG"\<close>\<close>

definition mcfg_signature :: "u8 list" where
  "mcfg_signature = [0x4D, 0x43, 0x46, 0x47]"

text \<open>\<^verbatim>\<open>Iterator::find\<close> with the predicate that may panic.\<close>

fun find_table :: "(u64 \<Rightarrow> u8) \<Rightarrow> u8 list \<Rightarrow> u64 list \<Rightarrow> u64 option rust" where
  "find_table m sig [] = Inr None"
| "find_table m sig (sdt # rest) =
     bindE (get_signature_str m sdt) (\<lambda>s. if s = sig then Inr (Some sdt) else find_table m sig rest)"

definition get_mcfg :: "bool \<Rightarrow> (u64 \<Rightarrow> u8) \<Rightarrow> RSDT option \<Rightarrow> MCFGTable rust" where
  "get_mcfg oc m rsdt =
     bindE (expect ''called `Option::unwrap()` on a `None` value'' rsdt) (\<lambda>rsdt.
     bindE (find_table m mcfg_signature (rsdt_tables rsdt)) (\<lambda>r.
     bindE (expect ''No MCFG found in RSDT'' r) (\<lambda>mcfg_header.
     mcfg_from_header oc m mcfg_header)))"

section \<open>Enumeration\<close>

definition check_function :: "u64 \<Rightarrow> u64 list \<Rightarrow> u64 list" where
  "check_function space devices = devices @ [space]"

text \<open>The address expression of \<^verbatim>\<open>check_device\<close>: two checked additions of a disjunction of shifts.\<close>

definition function_bits :: "u8 \<Rightarrow> u8 \<Rightarrow> u64 \<Rightarrow> u64" where
  "function_bits bus device function = push_bit 20 (ucast bus) OR push_bit 15 (ucast device) OR push_bit 12 function"

definition config_addr :: "bool \<Rightarrow> u64 \<Rightarrow> MCFGEntry \<Rightarrow> u8 \<Rightarrow> u8 \<Rightarrow> u64 \<Rightarrow> u64 rust" where
  "config_addr oc phys_offset bridge bus device function =
     bindE (add_ck oc phys_offset (config_space bridge)) (\<lambda>a. add_ck oc a (function_bits bus device function))"

definition check_device ::
  "bool \<Rightarrow> (u64 \<Rightarrow> u8) \<Rightarrow> MCFGEntry \<Rightarrow> u64 \<Rightarrow> u8 \<Rightarrow> u8 \<Rightarrow> u64 list \<Rightarrow> u64 list rust" where
  "check_device oc m bridge phys_offset bus device devices =
     bindE (config_addr oc phys_offset bridge bus device 0) (\<lambda>addr.
     bindE (device_type_from m addr) (\<lambda>r.
     case r of None \<Rightarrow> Inr devices | Some config_device \<Rightarrow>
     case as_device config_device of None \<Rightarrow> Inr devices | Some space \<Rightarrow>
     if vendor_id (config_space_at m space) = 0xFFFF then Inr devices
     else let devices = check_function space devices in
       if dev_header_type (config_space_at m space) AND 0x80 \<noteq> 0 then
         foldE (\<lambda>function devices.
             bindE (config_addr oc phys_offset bridge bus device (of_nat function)) (\<lambda>addr.
             if vendor_id (config_space_at m addr) \<noteq> 0xFFFF then Inr (check_function addr devices) else Inr devices))
           [1 ..< 8] devices
       else Inr devices))"

definition enumerate_bus :: "bool \<Rightarrow> (u64 \<Rightarrow> u8) \<Rightarrow> MCFGTable option \<Rightarrow> u64 \<Rightarrow> u64 list rust" where
  "enumerate_bus oc m mcfg phys_offset =
     bindE (expect ''called `Option::unwrap()` on a `None` value'' mcfg) (\<lambda>mcfg.
     foldE (\<lambda>bridge. foldE (\<lambda>bus. foldE (\<lambda>device. check_device oc m bridge phys_offset (of_nat bus) (of_nat device))
          [0 ..< 32]) [unat (start_bus bridge) ..< unat (end_bus bridge)])
       (mcfg_entries mcfg) [])"

record pci =
  MCFG_cell :: "MCFGTable option"
  DEVICES :: "u64 list option"

definition pci_init :: "bool \<Rightarrow> (u64 \<Rightarrow> u8) \<Rightarrow> RSDT option \<Rightarrow> u64 \<Rightarrow> pci \<Rightarrow> pci rust" where
  "pci_init oc m rsdt phys_offset st =
     bindE (case MCFG_cell st of None \<Rightarrow> get_mcfg oc m rsdt | Some t \<Rightarrow> Inr t) (\<lambda>t.
     let st = st\<lparr>MCFG_cell := Some t\<rparr> in
     bindE (case DEVICES st of None \<Rightarrow> enumerate_bus oc m (MCFG_cell st) phys_offset | Some d \<Rightarrow> Inr d) (\<lambda>d.
     Inr (st\<lparr>DEVICES := Some d\<rparr>)))"

section \<open>What the enumeration finds\<close>

text \<open>The address of a function as the PCI Express specification has it: base, bus, device and function
  in fields of 8, 5 and 3 bits above a 4 KiB configuration space.\<close>

definition ecam :: "u64 \<Rightarrow> MCFGEntry \<Rightarrow> nat \<Rightarrow> nat \<Rightarrow> nat \<Rightarrow> u64" where
  "ecam phys_offset e b d f = phys_offset + config_space e + of_nat (((b * 32 + d) * 8 + f) * 4096)"

definition present :: "(u64 \<Rightarrow> u8) \<Rightarrow> u64 \<Rightarrow> MCFGEntry \<Rightarrow> nat \<Rightarrow> nat \<Rightarrow> nat \<Rightarrow> bool" where
  "present m off e b d f \<longleftrightarrow>
     (let fn0 = config_space_at m (ecam off e b d 0) in
        vendor_id fn0 \<noteq> 0xFFFF \<and> dev_header_type fn0 AND 0x7F = 0 \<and>
        (f = 0 \<or> dev_header_type fn0 AND 0x80 \<noteq> 0 \<and> vendor_id (config_space_at m (ecam off e b d f)) \<noteq> 0xFFFF))"

lemma foldE_append_concat:
  assumes "\<And>x s. x \<in> set xs \<Longrightarrow> f x s = Inr (s @ g x)"
  shows "foldE f xs s = Inr (s @ concat (map g xs))"
  using assms by (induction xs arbitrary: s) simp_all

lemma concat_map_if: "concat (map (\<lambda>x. if P x then [g x] else []) xs) = map g (filter P xs)"
  by (induction xs) simp_all

lemma in_concat_map: "y \<in> set xs \<Longrightarrow> x \<in> set (g y) \<Longrightarrow> x \<in> set (concat (map g xs))"
  by auto

lemma or_plus:
  fixes x y :: u64
  assumes "unat y < 2 ^ k"
  shows "push_bit k x OR y = push_bit k x + y"
proof -
  have "\<not> bit y n" if "k \<le> n" for n
  proof
    assume "bit y n"
    then have "bit (unat y) n" by (simp add: bit_unsigned_iff)
    then have "unat y div 2 ^ n \<noteq> 0" by (metis bit_iff_odd even_zero)
    then have "2 ^ n \<le> unat y" by (simp add: div_eq_0_iff)
    with that assms show False
      by (meson le_less_trans less_le_not_le one_le_numeral power_increasing)
  qed
  then show ?thesis
    by (intro disjunctive_add [symmetric]) (auto simp: bit_push_bit_iff)
qed

lemma function_bits_eq:
  assumes "b < 256" and "d < 32" and "f < 8"
  shows "function_bits (of_nat b) (of_nat d) (of_nat f) = of_nat (((b * 32 + d) * 8 + f) * 4096)"
proof -
  have u: "ucast (of_nat n :: u8) = (of_nat n :: u64)" if "n < 256" for n
    using that by (simp add: word_unat_eq_iff unsigned_ucast_eq take_bit_eq_mod unat_of_nat)
  have p: "push_bit k (of_nat n) = (of_nat (n * 2 ^ k) :: u64)" for k n
    by (simp add: push_bit_eq_mult)
  have "unat (of_nat (f * 2 ^ 12) :: u64) < 2 ^ 15" "unat (of_nat (d * 2 ^ 15 + f * 2 ^ 12) :: u64) < 2 ^ 20"
    using assms by (simp_all add: unat_of_nat del: of_nat_mult of_nat_add)
  from or_plus [OF this(1), of "of_nat d"] or_plus [OF this(2), of "of_nat b"] show ?thesis
    using assms unfolding function_bits_def or.assoc p
    by (simp add: u p algebra_simps)
qed

lemma ecam_inj:
  assumes "ecam off e b d f = ecam off e b' d' f'" and "b < 256" "d < 32" "f < 8" and "b' < 256" "d' < 32" "f' < 8"
  shows "b = b' \<and> d = d' \<and> f = f'"
proof -
  have "unat (of_nat (((b * 32 + d) * 8 + f) * 4096) :: u64) = unat (of_nat (((b' * 32 + d') * 8 + f') * 4096) :: u64)"
    using assms(1) by (simp only: ecam_def add_left_cancel)
  then have "((b * 32 + d) * 8 + f) * 4096 = ((b' * 32 + d') * 8 + f') * 4096"
    using assms(2-) by (simp add: unat_of_nat_small del: of_nat_mult of_nat_add)
  then have eq: "(b * 32 + d) * 8 + f = (b' * 32 + d') * 8 + f'" by simp
  have f: "f = f'" using arg_cong [OF eq, of "\<lambda>n. n mod 8"] assms(4,7) by (simp only: mod_mult_self3 mod_less)
  have eq2: "b * 32 + d = b' * 32 + d'" using eq f by simp
  have "d = d'" using arg_cong [OF eq2, of "\<lambda>n. n mod 32"] assms(3,6) by (simp only: mod_mult_self3 mod_less)
  with eq2 f show ?thesis by simp
qed

definition room :: "u64 \<Rightarrow> MCFGEntry \<Rightarrow> bool" where
  "room off e \<longleftrightarrow> unat off + unat (config_space e) + 0x10000000 \<le> 2 ^ 64"

lemma config_addr_eq:
  assumes "room off e" and "b < 256" and "d < 32" and "f < 8"
  shows "config_addr oc off e (of_nat b) (of_nat d) (of_nat f) = Inr (ecam off e b d f)"
proof -
  have "((b * 32 + d) * 8 + f) * 4096 < 0x10000000" using assms(2-) by simp
  then show ?thesis
    using assms(1) unat_add_small [of off "config_space e"]
    by (simp add: config_addr_def function_bits_eq assms(2-) ecam_def room_def add_ck_ok unat_of_nat_small
        del: of_nat_mult of_nat_add)
qed

definition functions_of :: "(u64 \<Rightarrow> u8) \<Rightarrow> u64 \<Rightarrow> MCFGEntry \<Rightarrow> nat \<Rightarrow> nat \<Rightarrow> u64 list" where
  "functions_of m off e b d = map (ecam off e b d) (filter (present m off e b d) [0 ..< 8])"

definition known_header :: "(u64 \<Rightarrow> u8) \<Rightarrow> u64 \<Rightarrow> bool" where
  "known_header m a \<longleftrightarrow> dev_header_type (config_space_at m a) AND 0x7F \<in> {0, 1, 2, 0x7F}"

lemma check_device_eq:
  assumes "room off e" and "b < 256" and "d < 32" and "known_header m (ecam off e b d 0)"
  shows "check_device oc m e off (of_nat b) (of_nat d) ds = Inr (ds @ functions_of m off e b d)"
proof -
  let ?a = "ecam off e b d"
  let ?t = "dev_header_type (config_space_at m (?a 0))"
  have c: "config_addr oc off e (of_nat b) (of_nat d) 0 = Inr (?a 0)"
    using config_addr_eq [OF assms(1-3), of 0 oc] by simp
  have rest: "foldE (\<lambda>function devices.
        bindE (config_addr oc off e (of_nat b) (of_nat d) (of_nat function)) (\<lambda>addr.
        if vendor_id (config_space_at m addr) \<noteq> 0xFFFF then Inr (check_function addr devices) else Inr devices)) [1 ..< 8] xs =
      Inr (xs @ map ?a (filter (\<lambda>f. vendor_id (config_space_at m (?a f)) \<noteq> 0xFFFF) [1 ..< 8]))" for xs
    by (subst foldE_append_concat [where g = "\<lambda>f. if vendor_id (config_space_at m (?a f)) \<noteq> 0xFFFF then [?a f] else []"])
      (auto simp: config_addr_eq [OF assms(1-3)] check_function_def concat_map_if simp del: upt_rec_numeral)
  have pos: "filter (present m off e b d) [Suc 0 ..< 8] =
      (if ?t AND 0x80 \<noteq> 0 then filter (\<lambda>f. vendor_id (config_space_at m (?a f)) \<noteq> 0xFFFF) [Suc 0 ..< 8] else [])"
    if "?t AND 0x7F = 0 \<and> vendor_id (config_space_at m (?a 0)) \<noteq> 0xFFFF"
    using that by (auto simp: present_def Let_def filter_empty_conv intro!: filter_cong)
  have split: "[0 ..< 8] = 0 # [1 ..< (8 :: nat)]" by (simp add: upt_eval)
  show ?thesis
  proof (cases "?t AND 0x7F = 0 \<and> vendor_id (config_space_at m (?a 0)) \<noteq> 0xFFFF")
    case True
    then have "present m off e b d 0" by (simp add: present_def Let_def)
    with True pos [OF True] rest show ?thesis
      by (simp add: check_device_def c device_type_from_def functions_of_def split check_function_def Let_def del: upt_rec_numeral)
  next
    case False
    then have none: "functions_of m off e b d = []"
      by (auto simp: functions_of_def present_def Let_def filter_empty_conv)
    then show ?thesis
      using False assms(4) by (auto simp: check_device_def c device_type_from_def known_header_def Let_def)
  qed
qed

lemma concat_map_product:
  "concat (map (\<lambda>b. concat (map (\<lambda>d. map (h b d) (filter (P b d) fs)) ds)) bs) =
   map (\<lambda>(b, d, f). h b d f) (filter (\<lambda>(b, d, f). P b d f) (List.product bs (List.product ds fs)))"
  by (simp add: product_concat_map filter_concat map_concat filter_map o_def)



end
