(* ===== verification/Disk.thy ===== *)
theory Disk
  imports Pci
begin

text \<open>
  \<^verbatim>\<open>src/disk.rs\<close>: the AHCI driver. The controller's registers are reached through two parameters, a
  volatile read \<open>rd\<close> and a volatile write \<open>wr\<close> of a register of a port of the controller at an address:
  both may change the whole state, since the device works on its own and reads and writes memory.
  The command list and the command tables of a port are kept as structures; physical memory is
  \<open>ram\<close>. A bit field is a record of its fields; setters of constants that fit are updates, and
  \<^verbatim>\<open>with_byte_count\<close> of the \<^verbatim>\<open>bitfield_struct\<close> crate is a parameter, because its argument may not fit.
  Polling loops are partial functions: \<open>None\<close> is a loop that never ends.
\<close>

section \<open>Structures\<close>

datatype FISType = RegH2D | RegD2H | DMAActivate | DMASetup | Data | BIST | PIOSetup | DeviceBits

fun fis_type_u8 :: "FISType \<Rightarrow> u8" where
  "fis_type_u8 RegH2D = 0x27"
| "fis_type_u8 RegD2H = 0x34"
| "fis_type_u8 DMAActivate = 0x39"
| "fis_type_u8 DMASetup = 0x41"
| "fis_type_u8 Data = 0x46"
| "fis_type_u8 BIST = 0x58"
| "fis_type_u8 PIOSetup = 0x5F"
| "fis_type_u8 DeviceBits = 0xA1"

record FISRegH2D =
  fis_type :: u8
  fis_pmport :: u8
  fis_c :: u8
  command :: u8
  feature_low :: u8
  lba0 :: u8
  lba1 :: u8
  lba2 :: u8
  device :: u8
  lba3 :: u8
  lba4 :: u8
  lba5 :: u8
  feature_high :: u8
  fis_count :: u16
  icc :: u8
  control :: u8

record HBACommandHeader =
  command_fis_length :: u8
  atapi :: u8
  write_bit :: u8
  prefetchable :: u8
  bit_field1 :: u8
  prdt_length :: u16
  prd_byte_count :: u32
  command_table_descriptor_base :: u64

record HBAPRDTEntry =
  data_base :: u64
  byte_count :: usize
  prdt_interrupt :: usize

record HBACommandTable =
  command_fis :: FISRegH2D
  prdt_entries :: "HBAPRDTEntry list"

text \<open>The registers of a port and the two controller registers the driver reads.\<close>

datatype hba_reg =
    HostCapability | PortImplemented
  | ClBase | ClBaseUpper | FisBase | FisBaseUpper | InterruptStatus | CommandStatus
  | TaskFileData | SataStatus | SataActive | CommandIssue

record AHCIPort =
  hba_mem :: u64
  port_number :: nat
  command_list_buffer :: "HBACommandHeader list"
  fis_buffer :: u64
  command_table_buffers :: "HBACommandTable list"

datatype DiskAccessError = NoCommandSlots | TaskFileError

record 'd disk =
  hardware :: 'd
  ram :: "u64 \<Rightarrow> u8"
  PORTS :: "AHCIPort list"

type_synonym 'd rd = "u64 \<Rightarrow> nat \<Rightarrow> hba_reg \<Rightarrow> 'd disk \<Rightarrow> u32 \<times> 'd disk"
type_synonym 'd wr = "u64 \<Rightarrow> nat \<Rightarrow> hba_reg \<Rightarrow> u32 \<Rightarrow> 'd disk \<Rightarrow> 'd disk"

section \<open>Polling\<close>

partial_function (option) wait_until :: "'d rd \<Rightarrow> u64 \<Rightarrow> nat \<Rightarrow> hba_reg \<Rightarrow> (u32 \<Rightarrow> bool) \<Rightarrow> 'd disk \<Rightarrow> 'd disk option" where
  "wait_until rd hba port reg done st =
     (case rd hba port reg st of (v, st) \<Rightarrow> if done v then Some st else wait_until rd hba port reg done st)"

text \<open>The loop after a command is issued: until the slot's bit is clear or an error is reported.\<close>

partial_function (option) wait_complete ::
  "'d rd \<Rightarrow> u64 \<Rightarrow> nat \<Rightarrow> u32 \<Rightarrow> 'd disk \<Rightarrow> ((DiskAccessError + unit) \<times> 'd disk) option" where
  "wait_complete rd hba port slot_bit st =
     (case rd hba port CommandIssue st of (ci, st) \<Rightarrow>
      if ci AND slot_bit = 0 then Some (Inr (), st)
      else case rd hba port InterruptStatus st of (is, st) \<Rightarrow>
        if drop_bit 30 is AND 1 = 1 then Some (Inl TaskFileError, st)
        else wait_complete rd hba port slot_bit st)"

section \<open>Command slots\<close>

fun scan_slots :: "bool \<Rightarrow> u32 \<Rightarrow> nat list \<Rightarrow> nat option rust" where
  "scan_slots oc slots [] = Inr None"
| "scan_slots oc slots (i # rest) =
     bindE (shr_ck oc slots i) (\<lambda>v. if v AND 1 = 0 then Inr (Some i) else scan_slots oc slots rest)"

definition find_command_slot :: "bool \<Rightarrow> 'd rd \<Rightarrow> AHCIPort \<Rightarrow> 'd disk \<Rightarrow> (nat option \<times> 'd disk) rust" where
  "find_command_slot oc rd ahci_port st =
     (case rd (hba_mem ahci_port) (port_number ahci_port) SataActive st of (sata_active, st) \<Rightarrow>
      case rd (hba_mem ahci_port) (port_number ahci_port) CommandIssue st of (command_issue, st) \<Rightarrow>
      case rd (hba_mem ahci_port) (port_number ahci_port) HostCapability st of (host_capability, st) \<Rightarrow>
      bindE (scan_slots oc (sata_active OR command_issue) [0 ..< unat (drop_bit 8 host_capability AND 0xF0)])
        (\<lambda>r. Inr (r, st)))"

definition get_disk_count :: "'d disk \<Rightarrow> nat" where
  "get_disk_count st = length (PORTS st)"

section \<open>Reading and writing\<close>

definition update_port :: "nat \<Rightarrow> (AHCIPort \<Rightarrow> AHCIPort) \<Rightarrow> 'd disk \<Rightarrow> 'd disk" where
  "update_port d f st = st\<lparr>PORTS := (PORTS st)[d := f (PORTS st ! d)]\<rparr>"

text \<open>The statements on the command header, common to both transfers.\<close>

definition set_header :: "nat \<Rightarrow> u8 \<Rightarrow> AHCIPort \<Rightarrow> AHCIPort" where
  "set_header slot w p = p\<lparr>command_list_buffer := (command_list_buffer p)[slot :=
     (command_list_buffer p ! slot)\<lparr>command_fis_length := 5, write_bit := w\<rparr>]\<rparr>"

text \<open>The statements on the command table: the first descriptor entry and the host to device FIS.\<close>

definition set_prdt :: "u64 \<Rightarrow> HBAPRDTEntry \<Rightarrow> HBAPRDTEntry" where
  "set_prdt base e = e\<lparr>data_base := base\<rparr>"

definition set_fis :: "u8 \<Rightarrow> u64 \<Rightarrow> u16 \<Rightarrow> FISRegH2D \<Rightarrow> FISRegH2D" where
  "set_fis cmd lba sector_count fis = (let lbas = le_bytes 8 lba in
     fis\<lparr>fis_type := fis_type_u8 RegH2D, fis_c := 1, command := cmd,
         lba0 := lbas ! 0, lba1 := lbas ! 1, lba2 := lbas ! 2, lba3 := lbas ! 3, lba4 := lbas ! 4, lba5 := lbas ! 5,
         device := 64, fis_count := sector_count\<rparr>)"

definition set_table :: "nat \<Rightarrow> HBAPRDTEntry \<Rightarrow> u8 \<Rightarrow> u64 \<Rightarrow> u16 \<Rightarrow> AHCIPort \<Rightarrow> AHCIPort" where
  "set_table slot e cmd lba sector_count p = p\<lparr>command_table_buffers := (command_table_buffers p)[slot :=
     (let t = command_table_buffers p ! slot in
      t\<lparr>prdt_entries := (prdt_entries t)[0 := e], command_fis := set_fis cmd lba sector_count (command_fis t)\<rparr>)]\<rparr>"

text \<open>From the wait for an idle device to the check of the result.\<close>

definition issue_command ::
  "bool \<Rightarrow> 'd rd \<Rightarrow> 'd wr \<Rightarrow> u64 \<Rightarrow> nat \<Rightarrow> nat \<Rightarrow> 'd disk \<Rightarrow> ((DiskAccessError + unit) \<times> 'd disk) outcome" where
  "issue_command oc rd wr hba port slot st =
     bindP (map_option Inr (wait_until rd hba port TaskFileData (\<lambda>tfd. tfd AND 0x88 = 0) st)) (\<lambda>st.
     case rd hba port CommandIssue st of (command_issue, st) \<Rightarrow>
     bindP (Some (shl_ck oc 1 slot)) (\<lambda>slot_bit.
     let st = wr hba port CommandIssue (command_issue OR slot_bit) st in
     bindP (map_option Inr (wait_complete rd hba port slot_bit st)) (\<lambda>(r, st).
     case r of Inl e \<Rightarrow> Some (Inr (Inl e, st)) | Inr _ \<Rightarrow>
     case rd hba port InterruptStatus st of (is, st) \<Rightarrow>
       if drop_bit 30 is AND 1 = 1 then Some (Inr (Inl TaskFileError, st)) else Some (Inr (Inr (), st)))))"

text \<open>
  What both transfers do with a buffer at the virtual address \<open>buffer\<close>; \<open>w\<close> is the write bit of the header and
  \<open>cmd\<close> the command. An untranslatable buffer is reported as \<^verbatim>\<open>NoCommandSlots\<close>.
\<close>

definition transfer ::
  "bool \<Rightarrow> 'd rd \<Rightarrow> 'd wr \<Rightarrow> (usize \<Rightarrow> HBAPRDTEntry \<Rightarrow> HBAPRDTEntry rust) \<Rightarrow> (u64 \<Rightarrow> u64 option) \<Rightarrow>
   u8 \<Rightarrow> u8 \<Rightarrow> nat \<Rightarrow> u64 \<Rightarrow> u16 \<Rightarrow> u64 \<Rightarrow> 'd disk \<Rightarrow> ((DiskAccessError + unit) \<times> 'd disk) outcome" where
  "transfer oc rd wr with_byte_count translate_addr w cmd drive_num lba sector_count buffer st =
     bindP (Some (index_ck (PORTS st) drive_num)) (\<lambda>p.
     let hba = hba_mem p; port = port_number p;
         st = wr hba port InterruptStatus 0xFFFFFFFF st in
     bindP (Some (find_command_slot oc rd p st)) (\<lambda>(r, st).
     bindP (Some (expect ''No free command slots'' r)) (\<lambda>slot.
     bindP (Some (index_ck (command_list_buffer (PORTS st ! drive_num)) slot)) (\<lambda>_.
     let st = update_port drive_num (set_header slot w) st in
     bindP (Some (index_ck (command_table_buffers (PORTS st ! drive_num)) slot)) (\<lambda>cmd_table.
     case translate_addr buffer of None \<Rightarrow> Some (Inr (Inl NoCommandSlots, st)) | Some phys \<Rightarrow>
     bindP (Some (index_ck (prdt_entries cmd_table) 0)) (\<lambda>prdt.
     bindP (Some (sub_ck oc (512 * ucast sector_count) 1)) (\<lambda>n.
     bindP (Some (with_byte_count n (set_prdt phys prdt))) (\<lambda>prdt.
     let st = update_port drive_num (set_table slot (prdt\<lparr>prdt_interrupt := 1\<rparr>) cmd lba sector_count) st in
     issue_command oc rd wr hba port slot st))))))))"

definition vector_at :: "(u64 \<Rightarrow> u64 option) \<Rightarrow> 'd disk \<Rightarrow> u64 \<Rightarrow> nat \<Rightarrow> u8 list" where
  "vector_at translate_addr st a n =
     map (\<lambda>i. case translate_addr (a + of_nat i) of None \<Rightarrow> 0 | Some p \<Rightarrow> ram st p) [0 ..< n]"

text \<open>
  \<open>buffer\<close> is the address of the uninitialised vector that \<^verbatim>\<open>read_sectors\<close> allocates; its bytes at the end
  are the result.
\<close>

definition read_sectors ::
  "bool \<Rightarrow> 'd rd \<Rightarrow> 'd wr \<Rightarrow> (usize \<Rightarrow> HBAPRDTEntry \<Rightarrow> HBAPRDTEntry rust) \<Rightarrow> (u64 \<Rightarrow> u64 option) \<Rightarrow> u64 \<Rightarrow>
   nat \<Rightarrow> u64 \<Rightarrow> u16 \<Rightarrow> 'd disk \<Rightarrow> ((DiskAccessError + u8 list) \<times> 'd disk) outcome" where
  "read_sectors oc rd wr with_byte_count translate_addr buffer drive_num lba sector_count st =
     bindP (transfer oc rd wr with_byte_count translate_addr 0 0x25 drive_num lba sector_count buffer st) (\<lambda>(r, st).
     Some (Inr (case r of Inl e \<Rightarrow> Inl e
       | Inr _ \<Rightarrow> Inr (vector_at translate_addr st buffer (512 * unat sector_count)), st)))"

definition write_sectors ::
  "bool \<Rightarrow> 'd rd \<Rightarrow> 'd wr \<Rightarrow> (usize \<Rightarrow> HBAPRDTEntry \<Rightarrow> HBAPRDTEntry rust) \<Rightarrow> (u64 \<Rightarrow> u64 option) \<Rightarrow> u64 \<Rightarrow>
   nat \<Rightarrow> u64 \<Rightarrow> u16 \<Rightarrow> 'd disk \<Rightarrow> ((DiskAccessError + unit) \<times> 'd disk) outcome" where
  "write_sectors oc rd wr with_byte_count translate_addr buffer drive_num lba sector_count st =
     transfer oc rd wr with_byte_count translate_addr 1 0x35 drive_num lba sector_count buffer st"

section \<open>Initialisation\<close>

text \<open>
  \<open>alloc\<close> and \<open>alloc_zeroed\<close> are the kernel's global allocator, applied to a size and an alignment; memory
  from \<^verbatim>\<open>alloc\<close> is not initialised, so \<open>uninit i\<close> is whatever command header \<open>i\<close> of a new command list holds.
\<close>

definition zero_fis :: FISRegH2D where
  "zero_fis = \<lparr>fis_type = 0, fis_pmport = 0, fis_c = 0, command = 0, feature_low = 0, lba0 = 0, lba1 = 0, lba2 = 0, device = 0,
     lba3 = 0, lba4 = 0, lba5 = 0, feature_high = 0, fis_count = 0, icc = 0, control = 0\<rparr>"

definition zero_table :: HBACommandTable where
  "zero_table = \<lparr>command_fis = zero_fis, prdt_entries = replicate 8 \<lparr>data_base = 0, byte_count = 0, prdt_interrupt = 0\<rparr>\<rparr>"

fun init_command_tables ::
  "(nat \<Rightarrow> nat \<Rightarrow> 'd disk \<Rightarrow> u64 \<times> 'd disk) \<Rightarrow> (u64 \<Rightarrow> u64 option) \<Rightarrow> HBACommandHeader list \<Rightarrow> 'd disk \<Rightarrow>
   (HBACommandHeader list \<times> HBACommandTable list \<times> 'd disk) rust" where
  "init_command_tables alloc_zeroed translate_addr [] st = Inr ([], [], st)"
| "init_command_tables alloc_zeroed translate_addr (cmd_header # rest) st =
     (case alloc_zeroed (32 * 256) 128 st of (mem, st) \<Rightarrow>
      bindE (expect ''called `Option::unwrap()` on a `None` value'' (translate_addr mem)) (\<lambda>phys_addr.
      bindE (init_command_tables alloc_zeroed translate_addr rest st) (\<lambda>(headers, tables, st).
      Inr (cmd_header\<lparr>command_table_descriptor_base := phys_addr, prdt_length := 8\<rparr> # headers, zero_table # tables, st))))"

definition write_base :: "'d wr \<Rightarrow> u64 \<Rightarrow> nat \<Rightarrow> hba_reg \<Rightarrow> hba_reg \<Rightarrow> u64 \<Rightarrow> 'd disk \<Rightarrow> 'd disk" where
  "write_base wr hba i lower upper phys_addr st =
     wr hba i upper (ucast (drop_bit 32 phys_addr)) (wr hba i lower (ucast (phys_addr AND 0xFFFFFFFF)) st)"

text \<open>The body of the loop over the ports of a controller.\<close>

definition init_port ::
  "'d rd \<Rightarrow> 'd wr \<Rightarrow> (nat \<Rightarrow> nat \<Rightarrow> 'd disk \<Rightarrow> u64 \<times> 'd disk) \<Rightarrow> (nat \<Rightarrow> nat \<Rightarrow> 'd disk \<Rightarrow> u64 \<times> 'd disk) \<Rightarrow>
   (u64 \<Rightarrow> u64 option) \<Rightarrow> (nat \<Rightarrow> HBACommandHeader) \<Rightarrow> u64 \<Rightarrow> nat \<Rightarrow> AHCIPort list \<times> 'd disk \<Rightarrow> (AHCIPort list \<times> 'd disk) outcome" where
  "init_port rd wr alloc alloc_zeroed translate_addr uninit hba i = (\<lambda>(ports, st).
     case rd hba i PortImplemented st of (port_implemented, st) \<Rightarrow>
     if port_implemented AND push_bit i 1 = 0 then Some (Inr (ports, st)) else
     case rd hba i SataStatus st of (sata_status, st) \<Rightarrow>
     if sata_status AND 0x101 \<noteq> 0x101 then Some (Inr (ports, st)) else
     case rd hba i CommandStatus st of (command_value, st) \<Rightarrow>
     let st = wr hba i CommandStatus (command_value AND NOT 0x0001 AND NOT 0x0010) st in
     bindP (map_option Inr (wait_until rd hba i CommandStatus (\<lambda>v. v AND 0x4000 = 0 \<and> v AND 0x8000 = 0) st)) (\<lambda>st.
     case alloc 1024 1024 st of (command_list, st) \<Rightarrow>
     bindP (Some (expect ''called `Option::unwrap()` on a `None` value'' (translate_addr command_list))) (\<lambda>phys_addr.
     let st = write_base wr hba i ClBase ClBaseUpper phys_addr st in
     case alloc 256 256 st of (fis, st) \<Rightarrow>
     bindP (Some (expect ''called `Option::unwrap()` on a `None` value'' (translate_addr fis))) (\<lambda>phys_addr.
     let st = write_base wr hba i FisBase FisBaseUpper phys_addr st in
     bindP (Some (init_command_tables alloc_zeroed translate_addr (map uninit [0 ..< 32]) st)) (\<lambda>(headers, tables, st).
     bindP (map_option Inr (wait_until rd hba i CommandStatus (\<lambda>v. v AND 0x8000 = 0) st)) (\<lambda>st.
     case rd hba i CommandStatus st of (command_value, st) \<Rightarrow>
     let st = wr hba i CommandStatus (command_value OR (0x01 OR 0x100)) st in
     Some (Inr (ports @ [\<lparr>hba_mem = hba, port_number = i, command_list_buffer = headers, fis_buffer = fis,
                          command_table_buffers = tables\<rparr>], st))))))))"

fun foldP :: "('x \<Rightarrow> 's \<Rightarrow> 's outcome) \<Rightarrow> 'x list \<Rightarrow> 's \<Rightarrow> 's outcome" where
  "foldP f [] s = Some (Inr s)"
| "foldP f (x # xs) s = bindP (f x s) (foldP f xs)"

definition init_device ::
  "bool \<Rightarrow> 'd rd \<Rightarrow> 'd wr \<Rightarrow> (nat \<Rightarrow> nat \<Rightarrow> 'd disk \<Rightarrow> u64 \<times> 'd disk) \<Rightarrow> (nat \<Rightarrow> nat \<Rightarrow> 'd disk \<Rightarrow> u64 \<times> 'd disk) \<Rightarrow>
   (u64 \<Rightarrow> u64 option) \<Rightarrow> (nat \<Rightarrow> HBACommandHeader) \<Rightarrow> u64 \<Rightarrow> DeviceConfigurationSpace \<Rightarrow>
   AHCIPort list \<times> 'd disk \<Rightarrow> (AHCIPort list \<times> 'd disk) outcome" where
  "init_device oc rd wr alloc alloc_zeroed translate_addr uninit phys_off controller ps =
     bindP (Some (add_ck oc (ucast (get_bars controller ! 5)) phys_off)) (\<lambda>hba_ptr.
     foldP (init_port rd wr alloc alloc_zeroed translate_addr uninit hba_ptr) [0 ..< 32] ps)"

definition is_ahci :: "DeviceConfigurationSpace \<Rightarrow> bool" where
  "is_ahci device_space = (let device = get_identification device_space in
     di_class device = 0x1 \<and> di_subclass device = 0x6 \<and> di_interface device = 0x1)"

text \<open>The mapper is given by its offset and its translation; \<open>devices\<close> are the configuration spaces in \<^verbatim>\<open>pci::DEVICES\<close>.\<close>

definition disk_init ::
  "bool \<Rightarrow> 'd rd \<Rightarrow> 'd wr \<Rightarrow> (nat \<Rightarrow> nat \<Rightarrow> 'd disk \<Rightarrow> u64 \<times> 'd disk) \<Rightarrow> (nat \<Rightarrow> nat \<Rightarrow> 'd disk \<Rightarrow> u64 \<times> 'd disk) \<Rightarrow>
   (nat \<Rightarrow> HBACommandHeader) \<Rightarrow> (u64 \<times> (u64 \<Rightarrow> u64 option)) option \<Rightarrow> DeviceConfigurationSpace list option \<Rightarrow> 'd disk \<Rightarrow> 'd disk outcome" where
  "disk_init oc rd wr alloc alloc_zeroed uninit MAPPER devices st =
     bindP (Some (expect ''mapper not initialized'' MAPPER)) (\<lambda>(phys_off, translate_addr).
     bindP (Some (expect ''called `Option::unwrap()` on a `None` value'' devices)) (\<lambda>devices.
     bindP (foldP (init_device oc rd wr alloc alloc_zeroed translate_addr uninit phys_off) (filter is_ahci devices) ([], st)) (\<lambda>(ports, st).
     Some (Inr (st\<lparr>PORTS := ports\<rparr>)))))"

section \<open>The device\<close>

text \<open>
  What the AHCI specification says of a port. \<open>completes\<close> describes a device that takes \<open>k\<close> polls to finish
  a command without an error; \<open>h2d_command\<close> is a well-formed transfer command in a header and its table.
\<close>

fun completes :: "'d rd \<Rightarrow> u64 \<Rightarrow> nat \<Rightarrow> u32 \<Rightarrow> nat \<Rightarrow> 'd disk \<Rightarrow> 'd disk \<Rightarrow> bool" where
  "completes rd h p b 0 st st' =
     (case rd h p CommandIssue st of (ci, st) \<Rightarrow> ci AND b = 0 \<and>
      (case rd h p InterruptStatus st of (is, st) \<Rightarrow> drop_bit 30 is AND 1 \<noteq> 1 \<and> st = st'))"
| "completes rd h p b (Suc k) st st' =
     (case rd h p CommandIssue st of (ci, st) \<Rightarrow> ci AND b \<noteq> 0 \<and>
      (case rd h p InterruptStatus st of (is, st) \<Rightarrow> drop_bit 30 is AND 1 \<noteq> 1 \<and> completes rd h p b k st st'))"

definition h2d_command :: "u8 \<Rightarrow> u8 \<Rightarrow> u64 \<Rightarrow> nat \<Rightarrow> u64 \<Rightarrow> HBACommandHeader \<Rightarrow> HBACommandTable \<Rightarrow> bool" where
  "h2d_command w cmd lba n base hdr t \<longleftrightarrow>
     command_fis_length hdr = 5 \<and> atapi hdr = 0 \<and> write_bit hdr = w \<and> bit_field1 hdr = 0 \<and> 1 \<le> prdt_length hdr \<and>
     fis_type (command_fis t) = 0x27 \<and> fis_c (command_fis t) = 1 \<and> command (command_fis t) = cmd \<and>
     le_word [lba0 (command_fis t), lba1 (command_fis t), lba2 (command_fis t), lba3 (command_fis t),
       lba4 (command_fis t), lba5 (command_fis t)] = lba \<and>
     bit (device (command_fis t)) 6 \<and> unat (fis_count (command_fis t)) = n \<and> 0 < n \<and>
     prdt_entries t \<noteq> [] \<and> data_base (prdt_entries t ! 0) = base \<and> unat (byte_count (prdt_entries t ! 0)) = 512 * n - 1"

text \<open>The controller may update the transferred byte count of a header and nothing else of the port structures.\<close>

definition port_shape :: "AHCIPort \<Rightarrow> AHCIPort" where
  "port_shape p = p\<lparr>command_list_buffer := map (\<lambda>h. h\<lparr>prd_byte_count := 0\<rparr>) (command_list_buffer p)\<rparr>"

definition dma_in :: "u64 \<Rightarrow> u8 list \<Rightarrow> (u64 \<Rightarrow> u8) \<Rightarrow> (u64 \<Rightarrow> u8)" where
  "dma_in base bs m = (\<lambda>a. if unat (a - base) < length bs then bs ! unat (a - base) else m a)"

definition sector_range :: "(u64 \<Rightarrow> u8 list) \<Rightarrow> u64 \<Rightarrow> nat \<Rightarrow> u8 list" where
  "sector_range sec lba n = concat (map (\<lambda>i. sec (lba + of_nat i)) [0 ..< n])"

definition dma_out :: "u64 \<Rightarrow> nat \<Rightarrow> (u64 \<Rightarrow> u8) \<Rightarrow> u64 \<Rightarrow> (u64 \<Rightarrow> u8 list) \<Rightarrow> (u64 \<Rightarrow> u8 list)" where
  "dma_out base n m lba sec = (\<lambda>l. let k = unat (l - lba) in
     if k < n then bytes_at m (base + of_nat (512 * k)) 512 else sec l)"

definition unique_ports :: "AHCIPort list \<Rightarrow> bool" where
  "unique_ports ps \<longleftrightarrow> distinct (map (\<lambda>q. (hba_mem q, port_number q)) ps)"

text \<open>
  \<open>ready h p hw\<close>: the port is idle and has no command outstanding; \<open>sectors h p hw\<close> is the contents of its disk.
\<close>

definition ahci_port_doc ::
  "'d rd \<Rightarrow> 'd wr \<Rightarrow> (u64 \<Rightarrow> nat \<Rightarrow> 'd \<Rightarrow> bool) \<Rightarrow> (u64 \<Rightarrow> nat \<Rightarrow> 'd \<Rightarrow> u64 \<Rightarrow> u8 list) \<Rightarrow> u32 \<Rightarrow> u64 \<Rightarrow> nat \<Rightarrow> bool" where
  "ahci_port_doc rd wr ready sectors cap h p \<longleftrightarrow>
     (\<forall>hw l. length (sectors h p hw l) = 512) \<and>
     (\<forall>st v. ready h p (hardware st) \<longrightarrow>
        (\<exists>hw. wr h p InterruptStatus v st = st\<lparr>hardware := hw\<rparr> \<and> ready h p hw \<and> sectors h p hw = sectors h p (hardware st))) \<and>
     (\<forall>st reg. ready h p (hardware st) \<longrightarrow>
        (\<exists>v hw. rd h p reg st = (v, st\<lparr>hardware := hw\<rparr>) \<and> ready h p hw \<and> sectors h p hw = sectors h p (hardware st) \<and>
           (reg = TaskFileData \<longrightarrow> v AND 0x88 = 0) \<and> (reg \<in> {CommandIssue, SataActive} \<longrightarrow> v = 0) \<and>
           (reg = HostCapability \<longrightarrow> v = cap))) \<and>
     (\<forall>st d lba n base. ready h p (hardware st) \<and> d < length (PORTS st) \<and> hba_mem (PORTS st ! d) = h \<and>
        port_number (PORTS st ! d) = p \<and> unique_ports (PORTS st) \<and>
        h2d_command 0 0x25 lba n base (command_list_buffer (PORTS st ! d) ! 0) (command_table_buffers (PORTS st ! d) ! 0) \<longrightarrow>
        (\<exists>k st'. completes rd h p 1 k (wr h p CommandIssue 1 st) st' \<and> ready h p (hardware st') \<and>
           map port_shape (PORTS st') = map port_shape (PORTS st) \<and> sectors h p (hardware st') = sectors h p (hardware st) \<and>
           ram st' = dma_in base (sector_range (sectors h p (hardware st)) lba n) (ram st))) \<and>
     (\<forall>st d lba n base. ready h p (hardware st) \<and> d < length (PORTS st) \<and> hba_mem (PORTS st ! d) = h \<and>
        port_number (PORTS st ! d) = p \<and> unique_ports (PORTS st) \<and>
        h2d_command 1 0x35 lba n base (command_list_buffer (PORTS st ! d) ! 0) (command_table_buffers (PORTS st ! d) ! 0) \<longrightarrow>
        (\<exists>k st'. completes rd h p 1 k (wr h p CommandIssue 1 st) st' \<and> ready h p (hardware st') \<and>
           map port_shape (PORTS st') = map port_shape (PORTS st) \<and> ram st' = ram st \<and>
           sectors h p (hardware st') = dma_out base n (ram st) lba (sectors h p (hardware st))))"

definition with_byte_count_doc :: "(usize \<Rightarrow> HBAPRDTEntry \<Rightarrow> HBAPRDTEntry rust) \<Rightarrow> bool" where
  "with_byte_count_doc with_byte_count \<longleftrightarrow> (\<forall>n e. n < 0x400000 \<longrightarrow> with_byte_count n e = Inr (e\<lparr>byte_count := n\<rparr>))"

text \<open>A port as \<^verbatim>\<open>init_device\<close> leaves it, if the memory of its command list was zero.\<close>

definition port_ok :: "AHCIPort \<Rightarrow> bool" where
  "port_ok p \<longleftrightarrow> length (command_list_buffer p) = 32 \<and> length (command_table_buffers p) = 32 \<and>
     (\<forall>h \<in> set (command_list_buffer p). atapi h = 0 \<and> bit_field1 h = 0 \<and> prdt_length h = 8) \<and>
     (\<forall>t \<in> set (command_table_buffers p). length (prdt_entries t) = 8)"

definition contiguous :: "(u64 \<Rightarrow> u64 option) \<Rightarrow> u64 \<Rightarrow> u64 \<Rightarrow> nat \<Rightarrow> bool" where
  "contiguous translate_addr buffer base n \<longleftrightarrow> (\<forall>i < n. translate_addr (buffer + of_nat i) = Some (base + of_nat i))"

section \<open>Correctness of a transfer\<close>

lemma wait_complete_completes:
  assumes "completes rd h p b k st st'"
  shows "\<exists>st1 is. wait_complete rd h p b st = Some (Inr (), st1) \<and> rd h p InterruptStatus st1 = (is, st') \<and> drop_bit 30 is AND 1 \<noteq> 1"
  using assms
proof (induction k arbitrary: st)
  case 0
  then show ?case by (subst wait_complete.simps) (auto split: prod.splits)
next
  case (Suc k)
  then show ?case by (subst wait_complete.simps) (auto split: prod.splits)
qed

lemma scan_free: "0 < n \<Longrightarrow> scan_slots oc 0 [0 ..< n] = Inr (Some 0)"
  by (simp add: upt_conv_Cons shr_ck_ok)

lemma le_word_lba:
  assumes "unat (lba :: u64) < 2 ^ 48"
  shows "le_word [le_bytes 8 lba ! 0, le_bytes 8 lba ! 1, le_bytes 8 lba ! 2, le_bytes 8 lba ! 3,
    le_bytes 8 lba ! 4, le_bytes 8 lba ! 5] = lba"
proof (rule bit_word_eqI)
  fix k assume k: "k < LENGTH(64)"
  have nb: "\<not> bit lba n" if "48 \<le> n" for n
  proof
    assume "bit lba n"
    then have "bit (unat lba) n" by (simp add: bit_unsigned_iff)
    then have "unat lba div 2 ^ n \<noteq> 0" by (metis bit_iff_odd even_zero)
    then have "2 ^ n \<le> unat lba" by (simp add: div_eq_0_iff)
    with that assms show False by (meson le_less_trans less_le_not_le one_le_numeral power_increasing)
  qed
  let ?bs = "[le_bytes 8 lba ! 0, le_bytes 8 lba ! 1, le_bytes 8 lba ! 2, le_bytes 8 lba ! 3, le_bytes 8 lba ! 4, le_bytes 8 lba ! 5]"
  have bs: "?bs = map ((!) (le_bytes 8 lba)) [0 ..< 6]" by (simp add: upt_eval)
  show "bit (le_word ?bs :: u64) k = bit lba k"
    unfolding bs bit_le_word using k nb [of k]
    by (cases "k div 8 < 6") (auto simp: nth_le_bytes bit_ucast_iff bit_drop_bit_eq simp del: upt_rec_numeral)
qed

lemma port_shape_ok:
  assumes "port_shape p = port_shape q"
  shows "port_ok p = port_ok q" and "hba_mem p = hba_mem q" and "port_number p = port_number q"
proof -
  have sel: "hba_mem p = hba_mem q" "port_number p = port_number q" "command_table_buffers p = command_table_buffers q"
    and l: "map (\<lambda>h. h\<lparr>prd_byte_count := 0\<rparr>) (command_list_buffer p) = map (\<lambda>h. h\<lparr>prd_byte_count := 0\<rparr>) (command_list_buffer q)"
    using assms by (simp_all add: port_shape_def) (metis AHCIPort.ext_inject AHCIPort.surjective AHCIPort.update_convs(3))+
  have len: "length (command_list_buffer p) = length (command_list_buffer q)"
    using map_eq_imp_length_eq [OF l] .
  have flags: "(\<forall>h \<in> set xs. atapi h = 0 \<and> bit_field1 h = 0 \<and> prdt_length h = 8) \<longleftrightarrow>
      (\<forall>h \<in> set (map (\<lambda>h. h\<lparr>prd_byte_count := 0\<rparr>) xs). atapi h = 0 \<and> bit_field1 h = 0 \<and> prdt_length h = 8)" for xs
    by auto
  have "(\<forall>h \<in> set (command_list_buffer p). atapi h = 0 \<and> bit_field1 h = 0 \<and> prdt_length h = 8) \<longleftrightarrow>
      (\<forall>h \<in> set (command_list_buffer q). atapi h = 0 \<and> bit_field1 h = 0 \<and> prdt_length h = 8)"
    by (rule trans [OF flags]) (simp only: l flags [symmetric])
  then show "port_ok p = port_ok q"
    unfolding port_ok_def len sel by simp
  show "hba_mem p = hba_mem q" "port_number p = port_number q" by (fact sel)+
qed

lemma ahci_docD:
  assumes "ahci_port_doc rd wr ready sectors cap h p" and "ready h p (hardware st)"
  shows "\<exists>hw. wr h p InterruptStatus v st = st\<lparr>hardware := hw\<rparr> \<and> ready h p hw \<and> sectors h p hw = sectors h p (hardware st)"
    and "\<exists>v hw. rd h p reg st = (v, st\<lparr>hardware := hw\<rparr>) \<and> ready h p hw \<and> sectors h p hw = sectors h p (hardware st) \<and>
      (reg = TaskFileData \<longrightarrow> v AND 0x88 = 0) \<and> (reg \<in> {CommandIssue, SataActive} \<longrightarrow> v = 0) \<and> (reg = HostCapability \<longrightarrow> v = cap)"
  using assms(1) [unfolded ahci_port_doc_def, THEN conjunct2, THEN conjunct1, rule_format, OF assms(2)]
    assms(1) [unfolded ahci_port_doc_def, THEN conjunct2, THEN conjunct2, THEN conjunct1, rule_format, OF assms(2)] by simp_all

lemma ahci_doc_command:
  assumes "ahci_port_doc rd wr ready sectors cap h p" and "ready h p (hardware st)"
    and "d < length (PORTS st)" and "hba_mem (PORTS st ! d) = h" and "port_number (PORTS st ! d) = p" and "unique_ports (PORTS st)"
  shows "h2d_command 0 0x25 lba n base (command_list_buffer (PORTS st ! d) ! 0) (command_table_buffers (PORTS st ! d) ! 0) \<Longrightarrow>
      \<exists>k st'. completes rd h p 1 k (wr h p CommandIssue 1 st) st' \<and> ready h p (hardware st') \<and>
        map port_shape (PORTS st') = map port_shape (PORTS st) \<and> sectors h p (hardware st') = sectors h p (hardware st) \<and>
        ram st' = dma_in base (sector_range (sectors h p (hardware st)) lba n) (ram st)"
    and "h2d_command 1 0x35 lba n base (command_list_buffer (PORTS st ! d) ! 0) (command_table_buffers (PORTS st ! d) ! 0) \<Longrightarrow>
      \<exists>k st'. completes rd h p 1 k (wr h p CommandIssue 1 st) st' \<and> ready h p (hardware st') \<and>
        map port_shape (PORTS st') = map port_shape (PORTS st) \<and> ram st' = ram st \<and>
        sectors h p (hardware st') = dma_out base n (ram st) lba (sectors h p (hardware st))"
  using assms(1) [unfolded ahci_port_doc_def, THEN conjunct2, THEN conjunct2, THEN conjunct2, THEN conjunct1, rule_format, of st d lba n base]
    assms(1) [unfolded ahci_port_doc_def, THEN conjunct2, THEN conjunct2, THEN conjunct2, THEN conjunct2, rule_format, of st d lba n base]
    assms(2-) by simp_all

lemma find_slot_ready:
  assumes doc: "ahci_port_doc rd wr ready sectors cap h p" and rdy: "ready h p (hardware st)"
    and "hba_mem q = h" and "port_number q = p" and "drop_bit 8 cap AND 0xF0 \<noteq> 0"
  shows "\<exists>hw. find_command_slot oc rd q st = Inr (Some 0, st\<lparr>hardware := hw\<rparr>) \<and> ready h p hw \<and> sectors h p hw = sectors h p (hardware st)"
proof -
  obtain w1 where 1: "rd h p SataActive st = (0, st\<lparr>hardware := w1\<rparr>)" "ready h p w1" "sectors h p w1 = sectors h p (hardware st)"
    using ahci_docD(2) [OF doc rdy, of SataActive] by auto
  obtain w2 where 2: "rd h p CommandIssue (st\<lparr>hardware := w1\<rparr>) = (0, st\<lparr>hardware := w2\<rparr>)" "ready h p w2" "sectors h p w2 = sectors h p w1"
    using ahci_docD(2) [OF doc, of "st\<lparr>hardware := w1\<rparr>" CommandIssue] 1 by auto
  obtain w3 where 3: "rd h p HostCapability (st\<lparr>hardware := w2\<rparr>) = (cap, st\<lparr>hardware := w3\<rparr>)" "ready h p w3" "sectors h p w3 = sectors h p w2"
    using ahci_docD(2) [OF doc, of "st\<lparr>hardware := w2\<rparr>" HostCapability] 2 by auto
  have "0 < unat (drop_bit 8 cap AND 0xF0)" using assms(5) by (simp add: unat_gt_0)
  then show ?thesis
    using assms(3,4) 1 2 3 by (intro exI [of _ w3]) (simp add: find_command_slot_def scan_free)
qed

lemma issue_ready:
  assumes doc: "ahci_port_doc rd wr ready sectors cap h p" and rdy: "ready h p (hardware st)"
  shows "\<exists>hw. ready h p hw \<and> sectors h p hw = sectors h p (hardware st) \<and>
    (\<forall>k st'. completes rd h p 1 k (wr h p CommandIssue 1 (st\<lparr>hardware := hw\<rparr>)) st' \<longrightarrow>
       issue_command oc rd wr h p 0 st = Some (Inr (Inr (), st')))"
proof -
  obtain v w1 where 1: "rd h p TaskFileData st = (v, st\<lparr>hardware := w1\<rparr>)" "v AND 0x88 = 0" "ready h p w1" "sectors h p w1 = sectors h p (hardware st)"
    using ahci_docD(2) [OF doc rdy, of TaskFileData] by auto
  obtain w2 where 2: "rd h p CommandIssue (st\<lparr>hardware := w1\<rparr>) = (0, st\<lparr>hardware := w2\<rparr>)" "ready h p w2" "sectors h p w2 = sectors h p w1"
    using ahci_docD(2) [OF doc, of "st\<lparr>hardware := w1\<rparr>" CommandIssue] 1 by auto
  have "wait_until rd h p TaskFileData (\<lambda>tfd. tfd AND 0x88 = 0) st = Some (st\<lparr>hardware := w1\<rparr>)"
    using 1 by (subst wait_until.simps) simp
  then have "issue_command oc rd wr h p 0 st = Some (Inr (Inr (), st'))"
    if "completes rd h p 1 k (wr h p CommandIssue 1 (st\<lparr>hardware := w2\<rparr>)) st'" for k st'
    using wait_complete_completes [OF that] 2 by (auto simp: issue_command_def shl_ck_ok)
  then show ?thesis using 1 2 by (intro exI [of _ w2]) simp
qed

text \<open>
  Up to the issue of the command: on an idle port the transfer uses slot 0 and leaves a well-formed
  command for exactly the requested sectors and buffer in it.
\<close>

lemma transfer_prepares:
  assumes doc: "ahci_port_doc rd wr ready sectors cap h p" and rdy: "ready h p (hardware st)"
    and d: "d < length (PORTS st)" "hba_mem (PORTS st ! d) = h" "port_number (PORTS st ! d) = p" "port_ok (PORTS st ! d)"
    and cap: "drop_bit 8 cap AND 0xF0 \<noteq> 0" and wbc: "with_byte_count_doc with_byte_count"
    and tr: "translate_addr buffer = Some base" and n: "0 < unat n" "unat n \<le> 8192" and lba: "unat lba < 2 ^ 48"
  shows "\<exists>hw q. ready h p hw \<and> sectors h p hw = sectors h p (hardware st) \<and> port_ok q \<and> hba_mem q = h \<and> port_number q = p \<and>
    h2d_command w cmd lba (unat n) base (command_list_buffer q ! 0) (command_table_buffers q ! 0) \<and>
    transfer oc rd wr with_byte_count translate_addr w cmd d lba n buffer st =
      issue_command oc rd wr h p 0 (st\<lparr>hardware := hw, PORTS := (PORTS st)[d := q]\<rparr>)"
proof -
  obtain w1 where w1: "wr h p InterruptStatus 0xFFFFFFFF st = st\<lparr>hardware := w1\<rparr>" "ready h p w1" "sectors h p w1 = sectors h p (hardware st)"
    using ahci_docD(1) [OF doc rdy] by blast
  obtain w2 where w2: "find_command_slot oc rd (PORTS st ! d) (st\<lparr>hardware := w1\<rparr>) = Inr (Some 0, st\<lparr>hardware := w2\<rparr>)"
    "ready h p w2" "sectors h p w2 = sectors h p w1"
    using find_slot_ready [OF doc, of "st\<lparr>hardware := w1\<rparr>" "PORTS st ! d" oc] w1 d(2,3) cap by auto
  let ?p = "PORTS st ! d" and ?m = "512 * ucast n - 1 :: u64"
  let ?e = "prdt_entries (command_table_buffers ?p ! 0) ! 0"
  let ?q = "set_table 0 (?e\<lparr>data_base := base, byte_count := ?m, prdt_interrupt := 1\<rparr>) cmd lba n (set_header 0 w ?p)"
  have m: "unat ?m = 512 * unat n - 1" "sub_ck oc (512 * ucast n) (1 :: u64) = Inr ?m" "?m < 0x400000"
  proof -
    have u: "unat (512 * ucast n :: u64) = 512 * unat n"
      using n(2) by (subst unat_mult_small) (simp_all add: unsigned_ucast_eq take_bit_eq_mod)
    then have le: "(1 :: u64) \<le> 512 * ucast n" using n(1) by (simp add: word_le_nat_alt)
    then show um: "unat ?m = 512 * unat n - 1" by (simp add: unat_sub u)
    show "sub_ck oc (512 * ucast n) (1 :: u64) = Inr ?m" using le by (rule sub_ck_ok)
    show "?m < 0x400000" using n by (simp add: word_less_nat_alt um)
  qed
  have len: "0 < length (command_list_buffer ?p)" "0 < length (command_table_buffers ?p)"
    and e: "length (prdt_entries (command_table_buffers ?p ! 0)) = 8"
    and h: "atapi (command_list_buffer ?p ! 0) = 0 \<and> bit_field1 (command_list_buffer ?p ! 0) = 0 \<and> prdt_length (command_list_buffer ?p ! 0) = 8"
    using d(4) by (simp_all add: port_ok_def)
  have ne: "prdt_entries (command_table_buffers ?p ! 0) \<noteq> []" using e by auto
  have q: "port_ok ?q" "hba_mem ?q = h" "port_number ?q = p"
    using d(2-4) e h by (auto simp: port_ok_def set_table_def set_header_def Let_def dest!: set_update_subset_insert [THEN subsetD])
  have "h2d_command w cmd lba (unat n) base (command_list_buffer ?q ! 0) (command_table_buffers ?q ! 0)"
    using len e ne h m(1) n(1) le_word_lba [OF lba]
    by (simp add: h2d_command_def set_table_def set_header_def set_fis_def Let_def)
  moreover have "transfer oc rd wr with_byte_count translate_addr w cmd d lba n buffer st =
      issue_command oc rd wr h p 0 (st\<lparr>hardware := w2, PORTS := (PORTS st)[d := ?q]\<rparr>)"
    using d w1 w2 tr m wbc len e
    by (simp add: transfer_def index_ck_ok update_port_def set_prdt_def set_header_def with_byte_count_doc_def)
  ultimately show ?thesis using w1 w2 q by (intro exI [of _ w2] exI [of _ ?q]) simp
qed

definition drive :: "(u64 \<Rightarrow> nat \<Rightarrow> 'd \<Rightarrow> bool) \<Rightarrow> u64 \<Rightarrow> nat \<Rightarrow> nat \<Rightarrow> 'd disk \<Rightarrow> bool" where
  "drive ready h p d st \<longleftrightarrow> d < length (PORTS st) \<and> hba_mem (PORTS st ! d) = h \<and> port_number (PORTS st ! d) = p \<and>
     port_ok (PORTS st ! d) \<and> unique_ports (PORTS st) \<and> ready h p (hardware st)"

lemma drive_shape:
  assumes "map port_shape ps' = map port_shape ps" and "d < length ps"
    and "hba_mem (ps ! d) = h" "port_number (ps ! d) = p" "port_ok (ps ! d)" "unique_ports ps"
  shows "d < length ps' \<and> hba_mem (ps' ! d) = h \<and> port_number (ps' ! d) = p \<and> port_ok (ps' ! d) \<and> unique_ports ps'"
proof -
  have len: "length ps' = length ps" using map_eq_imp_length_eq [OF assms(1)] .
  have nth: "port_shape (ps' ! i) = port_shape (ps ! i)" if "i < length ps" for i
    using arg_cong [OF assms(1), of "\<lambda>xs. xs ! i"] that len by simp
  have "map (\<lambda>q. (hba_mem q, port_number q)) ps' = map (\<lambda>q. (hba_mem q, port_number q)) ps"
    using len port_shape_ok [OF nth] by (intro nth_equalityI) auto
  with assms len port_shape_ok [OF nth [OF assms(2)]] show ?thesis
    by (simp add: unique_ports_def)
qed

lemma unique_ports_update:
  assumes "unique_ports ps" and "d < length ps" and "hba_mem q = hba_mem (ps ! d)" and "port_number q = port_number (ps ! d)"
  shows "unique_ports (ps[d := q])"
proof -
  have "map (\<lambda>q. (hba_mem q, port_number q)) (ps[d := q]) = map (\<lambda>q. (hba_mem q, port_number q)) ps"
    using assms(2-4) by (simp add: map_update) (metis (no_types, lifting) length_map list_update_id nth_map)
  with assms(1) show ?thesis by (simp only: unique_ports_def)
qed

lemma length_sector_range:
  "(\<forall>l. length (sec l) = 512) \<Longrightarrow> length (sector_range sec lba n) = 512 * n"
  by (induction n) (simp_all add: sector_range_def)

text \<open>A transfer runs the command that it prepared.\<close>

lemma transfer_issues:
  assumes doc: "ahci_port_doc rd wr ready sectors cap h p" and dr: "drive ready h p d st"
    and cap: "drop_bit 8 cap AND 0xF0 \<noteq> 0" and wbc: "with_byte_count_doc with_byte_count"
    and tr: "translate_addr buffer = Some base" and n: "0 < unat n" "unat n \<le> 8192" and lba: "unat lba < 2 ^ 48"
  shows "\<exists>st1. drive ready h p d st1 \<and> sectors h p (hardware st1) = sectors h p (hardware st) \<and> ram st1 = ram st \<and>
    h2d_command w cmd lba (unat n) base (command_list_buffer (PORTS st1 ! d) ! 0) (command_table_buffers (PORTS st1 ! d) ! 0) \<and>
    (\<forall>k st'. completes rd h p 1 k (wr h p CommandIssue 1 st1) st' \<longrightarrow>
       transfer oc rd wr with_byte_count translate_addr w cmd d lba n buffer st = Some (Inr (Inr (), st')))"
proof -
  have d: "d < length (PORTS st)" "hba_mem (PORTS st ! d) = h" "port_number (PORTS st ! d) = p" "port_ok (PORTS st ! d)"
    "unique_ports (PORTS st)" "ready h p (hardware st)"
    using dr by (simp_all add: drive_def)
  obtain hw q where 1: "ready h p hw" "sectors h p hw = sectors h p (hardware st)" "port_ok q" "hba_mem q = h" "port_number q = p"
    "h2d_command w cmd lba (unat n) base (command_list_buffer q ! 0) (command_table_buffers q ! 0)"
    "transfer oc rd wr with_byte_count translate_addr w cmd d lba n buffer st =
      issue_command oc rd wr h p 0 (st\<lparr>hardware := hw, PORTS := (PORTS st)[d := q]\<rparr>)"
    using transfer_prepares [where translate_addr = translate_addr and ready = ready, OF doc d(6,1-4) cap wbc tr n lba] by blast
  let ?st = "st\<lparr>hardware := hw, PORTS := (PORTS st)[d := q]\<rparr>"
  obtain hw2 where 2: "ready h p hw2" "sectors h p hw2 = sectors h p hw"
    "\<forall>k st'. completes rd h p 1 k (wr h p CommandIssue 1 (?st\<lparr>hardware := hw2\<rparr>)) st' \<longrightarrow>
       issue_command oc rd wr h p 0 ?st = Some (Inr (Inr (), st'))"
    using issue_ready [OF doc, of ?st oc] 1(1) by auto
  have "drive ready h p d (?st\<lparr>hardware := hw2\<rparr>)"
    using 1 2(1) d unique_ports_update [OF d(5,1), of q] by (simp add: drive_def)
  with 1 2 d(1) show ?thesis
    by (intro exI [of _ "?st\<lparr>hardware := hw2\<rparr>"]) simp
qed

lemma driveD:
  assumes "drive ready h p d st"
  shows "d < length (PORTS st)" "hba_mem (PORTS st ! d) = h" "port_number (PORTS st ! d) = p" "port_ok (PORTS st ! d)"
    "unique_ports (PORTS st)" "ready h p (hardware st)"
  using assms by (simp_all add: drive_def)

lemma transfer_reads:
  assumes "ahci_port_doc rd wr ready sectors cap h p" and "drive ready h p d st"
    and "drop_bit 8 cap AND 0xF0 \<noteq> 0" and "with_byte_count_doc with_byte_count"
    and "translate_addr buffer = Some base" and "0 < unat n" "unat n \<le> 8192" and "unat lba < 2 ^ 48"
  shows "\<exists>st'. transfer oc rd wr with_byte_count translate_addr 0 0x25 d lba n buffer st = Some (Inr (Inr (), st')) \<and>
      drive ready h p d st' \<and> sectors h p (hardware st') = sectors h p (hardware st) \<and>
      ram st' = dma_in base (sector_range (sectors h p (hardware st)) lba (unat n)) (ram st)"
proof -
  obtain st1 where 1: "drive ready h p d st1" "sectors h p (hardware st1) = sectors h p (hardware st)" "ram st1 = ram st"
    "h2d_command 0 0x25 lba (unat n) base (command_list_buffer (PORTS st1 ! d) ! 0) (command_table_buffers (PORTS st1 ! d) ! 0)"
    "\<And>k st'. completes rd h p 1 k (wr h p CommandIssue 1 st1) st' \<Longrightarrow>
       transfer oc rd wr with_byte_count translate_addr 0 0x25 d lba n buffer st = Some (Inr (Inr (), st'))"
    using transfer_issues [where translate_addr = translate_addr and ready = ready, OF assms] by blast
  note D = driveD [OF 1(1)]
  obtain k st' where "completes rd h p 1 k (wr h p CommandIssue 1 st1) st'" "ready h p (hardware st')"
    "map port_shape (PORTS st') = map port_shape (PORTS st1)" "sectors h p (hardware st') = sectors h p (hardware st1)"
    "ram st' = dma_in base (sector_range (sectors h p (hardware st1)) lba (unat n)) (ram st1)"
    using ahci_doc_command(1) [where ready = ready, OF assms(1) D(6,1-3,5) 1(4)] by blast
  with 1 drive_shape [OF this(3) D(1-5)] show ?thesis
    by (intro exI [of _ st']) (simp add: drive_def)
qed

lemma transfer_writes:
  assumes "ahci_port_doc rd wr ready sectors cap h p" and "drive ready h p d st"
    and "drop_bit 8 cap AND 0xF0 \<noteq> 0" and "with_byte_count_doc with_byte_count"
    and "translate_addr buffer = Some base" and "0 < unat n" "unat n \<le> 8192" and "unat lba < 2 ^ 48"
  shows "\<exists>st'. transfer oc rd wr with_byte_count translate_addr 1 0x35 d lba n buffer st = Some (Inr (Inr (), st')) \<and>
      drive ready h p d st' \<and> ram st' = ram st \<and>
      sectors h p (hardware st') = dma_out base (unat n) (ram st) lba (sectors h p (hardware st))"
proof -
  obtain st1 where 1: "drive ready h p d st1" "sectors h p (hardware st1) = sectors h p (hardware st)" "ram st1 = ram st"
    "h2d_command 1 0x35 lba (unat n) base (command_list_buffer (PORTS st1 ! d) ! 0) (command_table_buffers (PORTS st1 ! d) ! 0)"
    "\<And>k st'. completes rd h p 1 k (wr h p CommandIssue 1 st1) st' \<Longrightarrow>
       transfer oc rd wr with_byte_count translate_addr 1 0x35 d lba n buffer st = Some (Inr (Inr (), st'))"
    using transfer_issues [where translate_addr = translate_addr and ready = ready, OF assms] by blast
  note D = driveD [OF 1(1)]
  obtain k st' where "completes rd h p 1 k (wr h p CommandIssue 1 st1) st'" "ready h p (hardware st')"
    "map port_shape (PORTS st') = map port_shape (PORTS st1)" "ram st' = ram st1"
    "sectors h p (hardware st') = dma_out base (unat n) (ram st1) lba (sectors h p (hardware st1))"
    using ahci_doc_command(2) [where ready = ready, OF assms(1) D(6,1-3,5) 1(4)] by blast
  with 1 drive_shape [OF this(3) D(1-5)] show ?thesis
    by (intro exI [of _ st']) (simp add: drive_def)
qed

lemma vector_dma_in:
  assumes "contiguous translate_addr buffer base (length bs)" and "length bs < 2 ^ 64" and "ram st = dma_in base bs m"
  shows "vector_at translate_addr st buffer (length bs) = bs"
  using assms by (intro nth_equalityI) (simp_all add: vector_at_def contiguous_def dma_in_def unat_of_nat_small)

lemma vector_bytes:
  "contiguous translate_addr buffer base n \<Longrightarrow> vector_at translate_addr st buffer n = bytes_at (ram st) base n"
  by (simp add: vector_at_def contiguous_def bytes_at_def)

lemma bytes_at_add: "bytes_at m a (k + n) = bytes_at m a k @ bytes_at m (a + of_nat k) n"
  by (rule nth_equalityI) (auto simp: nth_append nth_bytes_at add.assoc)

lemma sector_range_dma_out:
  assumes "n < 2 ^ 64"
  shows "sector_range (dma_out base n m lba sec) lba n = bytes_at m base (512 * n)"
proof -
  have "sector_range (dma_out base n m lba sec) lba k = bytes_at m base (512 * k)" if "k \<le> n" for k
    using that
  proof (induction k)
    case (Suc k)
    have "sector_range (dma_out base n m lba sec) lba (Suc k) = sector_range (dma_out base n m lba sec) lba k @
        dma_out base n m lba sec (lba + of_nat k)"
      by (simp add: sector_range_def)
    also have "dma_out base n m lba sec (lba + of_nat k) = bytes_at m (base + of_nat (512 * k)) 512"
      using Suc.prems assms by (simp add: dma_out_def unat_of_nat_small)
    finally show ?case
      using Suc bytes_at_add [of m base "512 * k" 512] by (simp add: add.commute)
  qed (simp add: sector_range_def bytes_at_def)
  then show ?thesis by simp
qed

lemma read_sectors_ok:
  assumes "ahci_port_doc rd wr ready sectors cap h p" and "drive ready h p d st"
    and "drop_bit 8 cap AND 0xF0 \<noteq> 0" and "with_byte_count_doc with_byte_count"
    and con: "contiguous translate_addr buffer base (512 * unat n)" and n: "0 < unat n" "unat n \<le> 8192" and "unat lba < 2 ^ 48"
  shows "\<exists>st'. read_sectors oc rd wr with_byte_count translate_addr buffer d lba n st =
      Some (Inr (Inr (sector_range (sectors h p (hardware st)) lba (unat n)), st')) \<and>
    drive ready h p d st' \<and> sectors h p (hardware st') = sectors h p (hardware st)"
proof -
  have tr: "translate_addr buffer = Some base"
    using con [unfolded contiguous_def, rule_format, of 0] n(1) by simp
  obtain st' where 1: "transfer oc rd wr with_byte_count translate_addr 0 0x25 d lba n buffer st = Some (Inr (Inr (), st'))"
      "drive ready h p d st'" "sectors h p (hardware st') = sectors h p (hardware st)"
      "ram st' = dma_in base (sector_range (sectors h p (hardware st)) lba (unat n)) (ram st)"
    using transfer_reads [where translate_addr = translate_addr and ready = ready, OF assms(1-4) tr n assms(8)] by blast
  have len: "length (sector_range (sectors h p (hardware st)) lba (unat n)) = 512 * unat n"
    using assms(1) [unfolded ahci_port_doc_def, THEN conjunct1] by (intro length_sector_range) blast
  then have "vector_at translate_addr st' buffer (512 * unat n) = sector_range (sectors h p (hardware st)) lba (unat n)"
    using vector_dma_in [OF _ _ 1(4), of translate_addr buffer] con n(2) by simp
  with 1 show ?thesis by (simp add: read_sectors_def)
qed

text \<open>C5: What \<^verbatim>\<open>write_sectors\<close> writes, \<^verbatim>\<open>read_sectors\<close> reads back: on an idle drive of a controller that reports
  more than 16 command slots both calls return without an error, for up to 8192 sectors at a 48-bit
  address and for buffers that are contiguous in physical memory; the second returns the bytes
  of the first one's buffer, and every other sector of the disk is unchanged.\<close>

theorem disk_roundtrip:
  assumes "ahci_port_doc rd wr ready sectors cap h p" and "drive ready h p d st"
    and "drop_bit 8 cap AND 0xF0 \<noteq> 0" and "with_byte_count_doc with_byte_count"
    and "contiguous translate_addr wbuf wbase (512 * unat n)" and "contiguous translate_addr rbuf rbase (512 * unat n)"
    and "0 < unat n" and "unat n \<le> 8192" and "unat lba < 2 ^ 48"
  shows "\<exists>st1 st2. write_sectors oc rd wr with_byte_count translate_addr wbuf d lba n st = Some (Inr (Inr (), st1)) \<and>
    read_sectors oc rd wr with_byte_count translate_addr rbuf d lba n st1 =
      Some (Inr (Inr (vector_at translate_addr st wbuf (512 * unat n)), st2)) \<and>
    (\<forall>l. unat n \<le> unat (l - lba) \<longrightarrow> sectors h p (hardware st2) l = sectors h p (hardware st) l)"
proof -
  have tr: "translate_addr wbuf = Some wbase"
    using assms(5) [unfolded contiguous_def, rule_format, of 0] assms(7) by simp
  obtain st1 where 1: "transfer oc rd wr with_byte_count translate_addr 1 0x35 d lba n wbuf st = Some (Inr (Inr (), st1))"
      "drive ready h p d st1" "sectors h p (hardware st1) = dma_out wbase (unat n) (ram st) lba (sectors h p (hardware st))"
    using transfer_writes [where translate_addr = translate_addr and ready = ready, OF assms(1-4) tr assms(7-9)] by blast
  obtain st2 where 2: "read_sectors oc rd wr with_byte_count translate_addr rbuf d lba n st1 =
      Some (Inr (Inr (sector_range (sectors h p (hardware st1)) lba (unat n)), st2))" "sectors h p (hardware st2) = sectors h p (hardware st1)"
    using read_sectors_ok [where ready = ready, OF assms(1) 1(2) assms(3,4,6-9)] by blast
  have "sector_range (sectors h p (hardware st1)) lba (unat n) = vector_at translate_addr st wbuf (512 * unat n)"
    unfolding 1(3) using assms(8) by (simp add: sector_range_dma_out vector_bytes [OF assms(5)])
  then show ?thesis
    using 1(1) 2 unfolding 1(3) by (intro exI [of _ st1] exI [of _ st2]) (simp add: write_sectors_def dma_out_def Let_def)
qed

text \<open>A controller that finishes every command at once.\<close>

definition fast_rd :: "u32 \<Rightarrow> (u64 \<Rightarrow> nat \<Rightarrow> u8) rd" where
  "fast_rd cap h p reg st = (if reg = HostCapability then cap else 0, st)"

definition fast_sectors :: "u64 \<Rightarrow> nat \<Rightarrow> (u64 \<Rightarrow> nat \<Rightarrow> u8) \<Rightarrow> u64 \<Rightarrow> u8 list" where
  "fast_sectors h p hw l = map (hw l) [0 ..< 512]"

definition fast_wr :: "(u64 \<Rightarrow> nat \<Rightarrow> u8) wr" where
  "fast_wr h p reg v st =
     (if reg = CommandIssue \<and> v = 1 then
        (case find (\<lambda>q. hba_mem q = h \<and> port_number q = p) (PORTS st) of None \<Rightarrow> st | Some q \<Rightarrow>
         let t = command_table_buffers q ! 0; f = command_fis t; base = data_base (prdt_entries t ! 0);
             lba = le_word [lba0 f, lba1 f, lba2 f, lba3 f, lba4 f, lba5 f]; n = unat (fis_count f) in
         if command f = 0x25 then st\<lparr>ram := dma_in base (sector_range (fast_sectors h p (hardware st)) lba n) (ram st)\<rparr>
         else st\<lparr>hardware := (\<lambda>l j. if unat (l - lba) < n then ram st (base + of_nat (512 * unat (l - lba)) + of_nat j) else hardware st l j)\<rparr>)
      else st)"

lemma find_unique:
  assumes "unique_ports ps" and "d < length ps"
  shows "find (\<lambda>q. hba_mem q = hba_mem (ps ! d) \<and> port_number q = port_number (ps ! d)) ps = Some (ps ! d)"
proof -
  have "\<not> (hba_mem (ps ! j) = hba_mem (ps ! d) \<and> port_number (ps ! j) = port_number (ps ! d))" if "j < d" for j
    using assms that nth_eq_iff_index_eq [of "map (\<lambda>q. (hba_mem q, port_number q)) ps" j d]
    by (auto simp: unique_ports_def)
  with assms(2) show ?thesis
    unfolding find_Some_iff by (intro exI [of _ d]) simp
qed

lemma fast_wr_command:
  assumes "d < length (PORTS st)" "hba_mem (PORTS st ! d) = h" "port_number (PORTS st ! d) = p" "unique_ports (PORTS st)"
    and cmd: "h2d_command w c lba n base (command_list_buffer (PORTS st ! d) ! 0) (command_table_buffers (PORTS st ! d) ! 0)"
  shows "fast_wr h p CommandIssue 1 st =
     (if c = 0x25 then st\<lparr>ram := dma_in base (sector_range (fast_sectors h p (hardware st)) lba n) (ram st)\<rparr>
      else st\<lparr>hardware := (\<lambda>l j. if unat (l - lba) < n then ram st (base + of_nat (512 * unat (l - lba)) + of_nat j) else hardware st l j)\<rparr>)"
proof -
  let ?t = "command_table_buffers (PORTS st ! d) ! 0"
  have t: "le_word [lba0 (command_fis ?t), lba1 (command_fis ?t), lba2 (command_fis ?t), lba3 (command_fis ?t),
      lba4 (command_fis ?t), lba5 (command_fis ?t)] = lba" "data_base (prdt_entries ?t ! 0) = base"
    "unat (fis_count (command_fis ?t)) = n" "command (command_fis ?t) = c"
    using cmd unfolding h2d_command_def by blast+
  have "find (\<lambda>q. hba_mem q = h \<and> port_number q = p) (PORTS st) = Some (PORTS st ! d)"
    using find_unique [OF assms(4,1)] assms(2,3) by simp
  then show ?thesis
    unfolding fast_wr_def by (simp only: simp_thms if_True option.case Let_def t)
qed

lemma fast_device: "ahci_port_doc (fast_rd cap) fast_wr (\<lambda>_ _ _. True) fast_sectors cap h p"
  unfolding ahci_port_doc_def
proof (intro conjI allI impI)
  show "length (fast_sectors h p hw l) = 512" for hw l
    by (simp add: fast_sectors_def)
  show "\<exists>hw. fast_wr h p InterruptStatus v st = st\<lparr>hardware := hw\<rparr> \<and> True \<and> fast_sectors h p hw = fast_sectors h p (hardware st)" for st v
    by (intro exI [of _ "hardware st"]) (simp add: fast_wr_def)
  show "\<exists>v hw. fast_rd cap h p reg st = (v, st\<lparr>hardware := hw\<rparr>) \<and> True \<and> fast_sectors h p hw = fast_sectors h p (hardware st) \<and>
      (reg = TaskFileData \<longrightarrow> v AND 0x88 = 0) \<and> (reg \<in> {CommandIssue, SataActive} \<longrightarrow> v = 0) \<and> (reg = HostCapability \<longrightarrow> v = cap)" for reg st
    by (intro exI [of _ "fst (fast_rd cap h p reg st)"] exI [of _ "hardware st"]) (auto simp: fast_rd_def)
  have fin: "completes (fast_rd cap) h p 1 0 st st" for st
    by (simp add: fast_rd_def)
  fix st :: "(u64 \<Rightarrow> nat \<Rightarrow> u8) disk" and d n :: nat and lba base :: u64
  {
    assume "True \<and> d < length (PORTS st) \<and> hba_mem (PORTS st ! d) = h \<and> port_number (PORTS st ! d) = p \<and> unique_ports (PORTS st) \<and>
      h2d_command 0 0x25 lba n base (command_list_buffer (PORTS st ! d) ! 0) (command_table_buffers (PORTS st ! d) ! 0)"
    then have "fast_wr h p CommandIssue 1 st = st\<lparr>ram := dma_in base (sector_range (fast_sectors h p (hardware st)) lba n) (ram st)\<rparr>"
      using fast_wr_command [of d st h p 0 "0x25" lba n base] by simp
    then show "\<exists>k st'. completes (fast_rd cap) h p 1 k (fast_wr h p CommandIssue 1 st) st' \<and> True \<and>
        map port_shape (PORTS st') = map port_shape (PORTS st) \<and> fast_sectors h p (hardware st') = fast_sectors h p (hardware st) \<and>
        ram st' = dma_in base (sector_range (fast_sectors h p (hardware st)) lba n) (ram st)"
      using fin by (intro exI [of _ 0] exI [of _ "fast_wr h p CommandIssue 1 st"]) simp
  next
    assume "True \<and> d < length (PORTS st) \<and> hba_mem (PORTS st ! d) = h \<and> port_number (PORTS st ! d) = p \<and> unique_ports (PORTS st) \<and>
      h2d_command 1 0x35 lba n base (command_list_buffer (PORTS st ! d) ! 0) (command_table_buffers (PORTS st ! d) ! 0)"
    then have eq: "fast_wr h p CommandIssue 1 st = st\<lparr>hardware := (\<lambda>l j. if unat (l - lba) < n
        then ram st (base + of_nat (512 * unat (l - lba)) + of_nat j) else hardware st l j)\<rparr>" (is "_ = ?st")
      using fast_wr_command [of d st h p 1 "0x35" lba n base] by simp
    have "fast_sectors h p (hardware ?st) = dma_out base n (ram st) lba (fast_sectors h p (hardware st))"
      by (auto simp: fun_eq_iff fast_sectors_def dma_out_def bytes_at_def Let_def simp del: of_nat_mult)
    then show "\<exists>k st'. completes (fast_rd cap) h p 1 k (fast_wr h p CommandIssue 1 st) st' \<and> True \<and>
        map port_shape (PORTS st') = map port_shape (PORTS st) \<and> ram st' = ram st \<and>
        fast_sectors h p (hardware st') = dma_out base n (ram st) lba (fast_sectors h p (hardware st))"
      using fin eq by (intro exI [of _ 0] exI [of _ ?st]) simp
  }
qed

definition example_port :: "nat \<Rightarrow> AHCIPort" where
  "example_port i = \<lparr>hba_mem = 0xFEBF1000, port_number = i,
     command_list_buffer = replicate 32 \<lparr>command_fis_length = 0, atapi = 0, write_bit = 0, prefetchable = 0, bit_field1 = 0,
       prdt_length = 8, prd_byte_count = 0, command_table_descriptor_base = 0\<rparr>,
     fis_buffer = 0, command_table_buffers = replicate 32 zero_table\<rparr>"

definition example_disk :: "(u64 \<Rightarrow> nat \<Rightarrow> u8) disk" where
  "example_disk = \<lparr>hardware = (\<lambda>l j. of_nat j), ram = (\<lambda>a. 7), PORTS = [example_port 0, example_port 1]\<rparr>"

lemma example_drive: "drive (\<lambda>_ _ _. True) 0xFEBF1000 1 1 example_disk"
  by (simp add: drive_def example_disk_def example_port_def port_ok_def unique_ports_def zero_table_def)

theorem disk_roundtrip_witness:
  "\<exists>st1 st2. write_sectors True (fast_rd 0xC0141F05) fast_wr (\<lambda>n e. Inr (e\<lparr>byte_count := n\<rparr>)) Some 0x5000 1 100 2 example_disk =
      Some (Inr (Inr (), st1)) \<and>
    read_sectors True (fast_rd 0xC0141F05) fast_wr (\<lambda>n e. Inr (e\<lparr>byte_count := n\<rparr>)) Some 0x9000 1 100 2 st1 =
      Some (Inr (Inr (vector_at Some example_disk 0x5000 1024), st2))"
proof -
  have "drop_bit 8 (0xC0141F05 :: u32) AND 0xF0 \<noteq> 0" by simp
  moreover have "with_byte_count_doc (\<lambda>n e. Inr (e\<lparr>byte_count := n\<rparr>))" by (simp add: with_byte_count_doc_def)
  moreover have "contiguous Some a a k" for a k by (simp add: contiguous_def)
  ultimately show ?thesis
    using disk_roundtrip [where lba = 100 and n = 2 and oc = True, OF fast_device example_drive, of "0xC0141F05" "\<lambda>n e. Inr (e\<lparr>byte_count := n\<rparr>)" Some "0x5000" "0x5000" "0x9000" "0x9000"]
    by auto
qed

section \<open>Command slots and start-up\<close>

lemma bit_and_1: "drop_bit i (w :: 'a::len word) AND 1 = 0 \<longleftrightarrow> \<not> bit w i"
  by (simp add: and_one_eq bit_iff_odd_drop_bit even_iff_mod_2_eq_zero)

text \<open>The search returns the first free slot among those it examines.\<close>

lemma scan_slots_first:
  "\<forall>i \<in> set is. i < 32 \<Longrightarrow> scan_slots oc slots is = Inr (find (\<lambda>i. \<not> bit slots i) is)"
  by (induction "is") (simp_all add: shr_ck_ok bit_and_1)



text \<open>
  \<open>cmd st\<close> is the command register of the port: what was written last is what is read, up to the bits the
  device changes on its own, and no other operation changes its start and FIS receive bits.
\<close>

definition command_register_doc ::
  "'d rd \<Rightarrow> 'd wr \<Rightarrow> (nat \<Rightarrow> nat \<Rightarrow> 'd disk \<Rightarrow> u64 \<times> 'd disk) \<Rightarrow> (nat \<Rightarrow> nat \<Rightarrow> 'd disk \<Rightarrow> u64 \<times> 'd disk) \<Rightarrow> u64 \<Rightarrow> nat \<Rightarrow> ('d disk \<Rightarrow> u32) \<Rightarrow> bool" where
  "command_register_doc rd wr alloc alloc_zeroed hba i cmd \<longleftrightarrow>
     (\<forall>st v. cmd (wr hba i CommandStatus v st) AND 0x11 = v AND 0x11) \<and>
     (\<forall>st reg v. reg \<noteq> CommandStatus \<longrightarrow> cmd (wr hba i reg v st) AND 0x11 = cmd st AND 0x11) \<and>
     (\<forall>st reg. cmd (snd (rd hba i reg st)) AND 0x11 = cmd st AND 0x11) \<and>
     (\<forall>st. fst (rd hba i CommandStatus st) AND 0x11 = cmd st AND 0x11) \<and>
     (\<forall>st a b. cmd (snd (alloc a b st)) AND 0x11 = cmd st AND 0x11) \<and>
     (\<forall>st a b. cmd (snd (alloc_zeroed a b st)) AND 0x11 = cmd st AND 0x11)"

lemma wait_until_keeps:
  assumes "\<And>st. cmd (snd (rd hba i reg st)) AND 0x11 = cmd st AND (0x11 :: u32)"
    and "wait_until rd hba i reg P st = Some st'"
  shows "cmd st' AND 0x11 = cmd st AND 0x11"
proof -
  have "rd = rd \<and> hba = hba \<and> i = i \<and> reg = reg \<longrightarrow> cmd st' AND 0x11 = cmd st AND 0x11"
  proof (rule wait_until.raw_induct [where P = "\<lambda>rd' hba' i' reg' P' st st'.
        rd' = rd \<and> hba' = hba \<and> i' = i \<and> reg' = reg \<longrightarrow> cmd st' AND 0x11 = cmd st AND 0x11", OF _ assms(2)], goal_cases)
    case (1 w rd' hba' i' reg' P' st st')
    show ?case
    proof (intro impI)
      assume eq: "rd' = rd \<and> hba' = hba \<and> i' = i \<and> reg' = reg"
      obtain v st1 where r: "rd hba i reg st = (v, st1)" by (cases "rd hba i reg st")
      have "cmd st1 AND 0x11 = cmd st AND 0x11" using assms(1) [of st] r by simp
      with 1 eq r show "cmd st' AND 0x11 = cmd st AND 0x11"
        by (cases "P' v") auto
    qed
  qed
  then show ?thesis by simp
qed

lemma init_tables_keep:
  assumes "\<And>st a b. cmd (snd (alloc_zeroed a b st)) AND 0x11 = cmd st AND (0x11 :: u32)"
    and "init_command_tables alloc_zeroed translate_addr hs st = Inr (hs', ts, st')"
  shows "cmd st' AND 0x11 = cmd st AND 0x11"
  using assms(2)
proof (induction hs arbitrary: st hs' ts)
  case (Cons h hs)
  obtain mem st1 where a: "alloc_zeroed (32 * 256) 128 st = (mem, st1)" by (cases "alloc_zeroed (32 * 256) 128 st")
  with Cons.prems obtain hs1 ts1 where "init_command_tables alloc_zeroed translate_addr hs st1 = Inr (hs1, ts1, st')"
    by (auto elim!: bindE_InrE)
  then have "cmd st' AND 0x11 = cmd st1 AND 0x11" by (rule Cons.IH)
  with assms(1) [of "32 * 256" 128 st] a show ?case by simp
qed simp

text \<open>C38: Initialising a port leaves its FIS receive bit off: the driver clears the start bit and the FIS receive
  bit of the command register, and at the end sets the start bit and bit 8, not bit 4. A port that
  has been added to the list is started but does not receive.\<close>

theorem init_leaves_fis_receive_off:
  assumes doc: "command_register_doc rd wr alloc alloc_zeroed hba i cmd"
    and run: "init_port rd wr alloc alloc_zeroed translate_addr uninit hba i (ports, st) = Some (Inr (ports', st'))"
    and new: "ports' \<noteq> ports"
  shows "bit (cmd st') 0 \<and> \<not> bit (cmd st') 4"
proof -
  note d = doc [unfolded command_register_doc_def]
  have w: "cmd (wr hba i CommandStatus v st) AND 0x11 = v AND 0x11"
    and w': "reg \<noteq> CommandStatus \<Longrightarrow> cmd (wr hba i reg v st) AND 0x11 = cmd st AND 0x11"
    and r: "rd hba i reg st = (v, st1) \<Longrightarrow> cmd st1 AND 0x11 = cmd st AND 0x11"
    and rv: "rd hba i CommandStatus st = (v, st1) \<Longrightarrow> v AND 0x11 = cmd st AND 0x11"
    and al: "alloc a b st = (m, st1) \<Longrightarrow> cmd st1 AND 0x11 = cmd st AND 0x11"
    and az: "cmd (snd (alloc_zeroed a b st)) AND 0x11 = cmd st AND 0x11" for reg v st st1 a b m
    using d by (metis fst_conv snd_conv)+
  have wb: "lower \<noteq> CommandStatus \<Longrightarrow> upper \<noteq> CommandStatus \<Longrightarrow>
      cmd (write_base wr hba i lower upper a st) AND 0x11 = cmd st AND 0x11" for lower upper a st
    by (simp add: write_base_def w')
  obtain c0 sa sc sd a1 sf a2 hs ts sh si c1 sj m1 m2 P Q where
    s: "wait_until rd hba i CommandStatus P (wr hba i CommandStatus (c0 AND NOT 0x0001 AND NOT 0x0010) sa) = Some sc"
    "alloc 1024 1024 sc = (m1, sd)" "alloc 256 256 (write_base wr hba i ClBase ClBaseUpper a1 sd) = (m2, sf)"
    "init_command_tables alloc_zeroed translate_addr (map uninit [0 ..< 32]) (write_base wr hba i FisBase FisBaseUpper a2 sf) = Inr (hs, ts, sh)"
    "wait_until rd hba i CommandStatus Q sh = Some si"
    "rd hba i CommandStatus si = (c1, sj)" "st' = wr hba i CommandStatus (c1 OR (0x01 OR 0x100)) sj"
    using run new unfolding init_port_def by (auto simp: Let_def split: prod.splits if_splits elim!: bindP_InrE)
  have keep: "cmd (snd (rd hba i CommandStatus st)) AND 0x11 = cmd st AND 0x11" for st
    using r [of CommandStatus st] by (cases "rd hba i CommandStatus st") simp
  have "cmd si AND 0x11 = cmd sh AND 0x11" by (rule wait_until_keeps [where cmd = cmd and rd = rd, OF keep s(5)])
  also have "\<dots> = cmd sf AND 0x11" using init_tables_keep [of cmd alloc_zeroed, OF az s(4)] by (simp add: wb)
  also have "\<dots> = cmd sc AND 0x11" using al [OF s(3)] al [OF s(2)] by (simp add: wb)
  also have "\<dots> = (c0 AND NOT 0x0001 AND NOT 0x0010) AND 0x11" using wait_until_keeps [where cmd = cmd and rd = rd, OF keep s(1)] by (simp add: w)
  also have "\<dots> = 0" by (simp add: and.assoc)
  finally have c1: "c1 AND 0x11 = 0" using rv [OF s(6)] by simp
  have "cmd st' AND 0x11 = (c1 OR (0x01 OR 0x100)) AND 0x11" unfolding s(7) by (rule w)
  also have "\<dots> = (c1 AND 0x11) OR 1" by (simp add: and.commute bit.conj_disj_distrib)
  finally have "cmd st' AND 0x11 = 1" using c1 by simp
  then have "bit (cmd st' AND 0x11) 0" "\<not> bit (cmd st' AND 0x11) 4" by (simp_all add: bit_1_iff)
  then show ?thesis by (simp add: bit_and_iff)
qed

text \<open>A device whose command register is plain memory.\<close>

definition plain_rd :: "u32 rd" where
  "plain_rd h p reg st = (if reg = CommandStatus then hardware st else if reg = SataStatus then 0x113 else 0x3F, st)"

definition plain_wr :: "u32 wr" where
  "plain_wr h p reg v st = (if reg = CommandStatus then st\<lparr>hardware := v\<rparr> else st)"

theorem init_leaves_fis_receive_off_witness:
  "\<exists>ports' st'. init_port plain_rd plain_wr (\<lambda>_ _ st. (0x8000, st)) (\<lambda>_ _ st. (0x9000, st)) Some
       (\<lambda>_. command_list_buffer (example_port 0) ! 0) 0xFEBF1000 1
       ([], \<lparr>hardware = 0x17, ram = (\<lambda>_. 0), PORTS = []\<rparr>) = Some (Inr (ports', st')) \<and> \<not> bit (hardware st') 4"
proof -
  let ?a = "\<lambda>_ _ st. (0x8000 :: u64, st)" and ?z = "\<lambda>_ _ st. (0x9000 :: u64, st)" and ?u = "\<lambda>_. command_list_buffer (example_port 0) ! 0"
  let ?st = "\<lparr>hardware = 0x17 :: u32, ram = (\<lambda>_. 0), PORTS = []\<rparr>"
  have doc: "command_register_doc plain_rd plain_wr ?a ?z 0xFEBF1000 1 hardware"
    by (simp add: command_register_doc_def plain_rd_def plain_wr_def)
  have tables: "\<exists>hs' ts. init_command_tables ?z Some hs st = Inr (hs', ts, st)" for hs and st :: "u32 disk"
    by (induction hs) auto
  have wait: "wait_until plain_rd h i CommandStatus P st = Some st" if "P (hardware st)" for h i P and st :: "u32 disk"
    using that by (subst wait_until.simps) (simp add: plain_rd_def)
  obtain ports' st' where run: "init_port plain_rd plain_wr ?a ?z Some ?u 0xFEBF1000 1 ([], ?st) = Some (Inr (ports', st'))" "ports' \<noteq> []"
    using tables [of "map ?u [0 ..< 32]" "?st\<lparr>hardware := 6\<rparr>"]
    by (auto simp: init_port_def wait plain_rd_def plain_wr_def write_base_def Let_def simp del: upt_rec_numeral)
  from init_leaves_fis_receive_off [OF doc run(1,2)] run(1) show ?thesis by blast
qed

end
