(* ===== verification/Fs.thy ===== *)
theory Fs
  imports Disk
begin

text \<open>
  \<^verbatim>\<open>src/fs.rs\<close> and the search for the shell in \<^verbatim>\<open>src/lib.rs\<close>: the FAT structures, reading a file, and the
  directory tree. Sectors are read through a parameter \<open>read\<close>, which takes the drive, the first sector and
  the count; \<open>sector_reads\<close> is what the file system needs of it, and the AHCI driver provides it.
\<close>

section \<open>Structures\<close>

record FatBootSector32Ext =
  table_size_32 :: u32
  extended_flags :: u16
  fat_version :: u16
  root_cluster :: u32
  fat_info :: u16
  backup_boot_sector :: u16
  ext_reserved_0 :: "u8 list"
  drive_number :: u8
  ext_reserved_1 :: u8
  boot_signature :: u8
  volume_id :: u32
  volume_label :: "u8 list"
  fat_type_label :: "u8 list"

record FatBootSector =
  boot_jmp :: "u8 list"
  oem_name :: "u8 list"
  bytes_per_sector :: u16
  sectors_per_cluster :: u8
  reserved_sector_count :: u16
  table_count :: u8
  root_entry_count :: u16
  total_sectors_16 :: u16
  media_type :: u8
  table_size_16 :: u16
  sectors_per_track :: u16
  head_side_count :: u16
  hidden_sector_count :: u32
  total_sectors_32 :: u32
  extended_section :: FatBootSector32Ext

record File =
  file_name :: "u8 list"
  attributes :: u8
  file_reserved :: u8
  creation_duration :: u8
  creation_time :: u16
  creation_date :: u16
  last_accessed :: u16
  cluster_h :: u16
  modified_time :: u16
  modified_date :: u16
  cluster_l :: u16
  fat_file_size :: u32

definition boot_sector_of :: "u8 list \<Rightarrow> FatBootSector" where
  "boot_sector_of b = \<lparr>boot_jmp = field b 0 3, oem_name = field b 3 8, bytes_per_sector = le_word (field b 11 2),
     sectors_per_cluster = le_word (field b 13 1), reserved_sector_count = le_word (field b 14 2), table_count = le_word (field b 16 1),
     root_entry_count = le_word (field b 17 2), total_sectors_16 = le_word (field b 19 2), media_type = le_word (field b 21 1),
     table_size_16 = le_word (field b 22 2), sectors_per_track = le_word (field b 24 2), head_side_count = le_word (field b 26 2),
     hidden_sector_count = le_word (field b 28 4), total_sectors_32 = le_word (field b 32 4),
     extended_section = \<lparr>table_size_32 = le_word (field b 36 4), extended_flags = le_word (field b 40 2),
       fat_version = le_word (field b 42 2), root_cluster = le_word (field b 44 4), fat_info = le_word (field b 48 2),
       backup_boot_sector = le_word (field b 50 2), ext_reserved_0 = field b 52 12, drive_number = le_word (field b 64 1),
       ext_reserved_1 = le_word (field b 65 1), boot_signature = le_word (field b 66 1), volume_id = le_word (field b 67 4),
       volume_label = field b 71 11, fat_type_label = field b 82 8\<rparr>\<rparr>"

definition file_of :: "u8 list \<Rightarrow> File" where
  "file_of b = \<lparr>file_name = field b 0 11, attributes = le_word (field b 11 1), file_reserved = le_word (field b 12 1),
     creation_duration = le_word (field b 13 1), creation_time = le_word (field b 14 2), creation_date = le_word (field b 16 2),
     last_accessed = le_word (field b 18 2), cluster_h = le_word (field b 20 2), modified_time = le_word (field b 22 2),
     modified_date = le_word (field b 24 2), cluster_l = le_word (field b 26 2), fat_file_size = le_word (field b 28 4)\<rparr>"

definition file_default :: File where
  "file_default = \<lparr>file_name = replicate 11 0, attributes = 0, file_reserved = 0, creation_duration = 0, creation_time = 0,
     creation_date = 0, last_accessed = 0, cluster_h = 0, modified_time = 0, modified_date = 0, cluster_l = 0, fat_file_size = 0\<rparr>"

text \<open>
  The ordered tree of the crate \<^verbatim>\<open>trees\<close>, as far as the source uses it: \<^verbatim>\<open>Tree::new\<close>, \<^verbatim>\<open>push_back\<close>, \<^verbatim>\<open>back_mut\<close> (the last
  child and how to put a changed one back), \<^verbatim>\<open>iter\<close> and \<^verbatim>\<open>data\<close>. \<open>Node\<close> is the abstract tree: a file and its children in
  order, and \<open>trees_doc\<close> is what the crate documents.
\<close>

record 't trees =
  tree_new :: "File \<Rightarrow> 't"
  push_back :: "'t \<Rightarrow> 't \<Rightarrow> 't"
  back_mut :: "'t \<Rightarrow> ('t \<times> ('t \<Rightarrow> 't)) option"
  node_iter :: "'t \<Rightarrow> 't list"
  node_data :: "'t \<Rightarrow> File"

datatype Node = Node (data: File) (children: "Node list")

definition trees_doc :: "'t trees \<Rightarrow> ('t \<Rightarrow> Node) \<Rightarrow> bool" where
  "trees_doc T shape \<longleftrightarrow>
     (\<forall>f. shape (tree_new T f) = Node f []) \<and>
     (\<forall>t c. shape (push_back T t c) = Node (data (shape t)) (children (shape t) @ [shape c])) \<and>
     (\<forall>t. children (shape t) \<noteq> [] \<longrightarrow> (\<exists>c put. back_mut T t = Some (c, put) \<and> shape c = last (children (shape t)) \<and>
        (\<forall>c'. shape (put c') = Node (data (shape t)) (butlast (children (shape t)) @ [shape c'])))) \<and>
     (\<forall>t. map shape (node_iter T t) = children (shape t)) \<and>
     (\<forall>t. node_data T t = data (shape t))"

definition directory :: "File \<Rightarrow> bool" where
  "directory f \<longleftrightarrow> bit (attributes f) 4"

section \<open>Files\<close>

definition get_name :: "File \<Rightarrow> u8 list rust" where
  "get_name f =
     (if file_name f ! 0 = 0 then Inr [0x2F]
      else if utf8_ok (file_name f) then Inr (file_name f)
      else Inl (UnwrapFailed ''invalid ascii in filename''))"

definition get_data_addr :: "File \<Rightarrow> u32" where
  "get_data_addr f = ucast (cluster_l f) OR push_bit 16 (ucast (cluster_h f))"

text \<open>The sector arithmetic, as it stands in \<^verbatim>\<open>get_data\<close> and in \<^verbatim>\<open>parse_directory\<close>: the root directory size is computed
  in 16 bits, the rest in 32 bits.\<close>

definition fat_size :: "FatBootSector \<Rightarrow> u32" where
  "fat_size b = (if table_size_16 b = 0 then table_size_32 (extended_section b) else ucast (table_size_16 b))"

definition first_data_sector :: "bool \<Rightarrow> FatBootSector \<Rightarrow> u32 rust" where
  "first_data_sector oc b =
     bindE (mul_ck oc (root_entry_count b) 32) (\<lambda>r.
     bindE (add_ck oc r (bytes_per_sector b)) (\<lambda>r.
     bindE (sub_ck oc r 1) (\<lambda>r.
     bindE (div_ck r (bytes_per_sector b)) (\<lambda>root_dir_sectors.
     bindE (mul_ck oc (ucast (table_count b)) (fat_size b)) (\<lambda>t.
     bindE (add_ck oc (ucast (reserved_sector_count b)) t) (\<lambda>t.
     add_ck oc t (ucast root_dir_sectors)))))))"

definition first_sector :: "bool \<Rightarrow> FatBootSector \<Rightarrow> u32 \<Rightarrow> u32 \<Rightarrow> u32 rust" where
  "first_sector oc b first_data cluster_idx =
     bindE (sub_ck oc cluster_idx 2) (\<lambda>c.
     bindE (mul_ck oc c (ucast (sectors_per_cluster b))) (\<lambda>c.
     add_ck oc c first_data))"

text \<open>\<^verbatim>\<open>set_len\<close> on a vector: the bytes past its data are whatever follows them in memory.\<close>

definition set_len :: "(nat \<Rightarrow> u8) \<Rightarrow> nat \<Rightarrow> u8 list \<Rightarrow> u8 list" where
  "set_len beyond n v = take n v @ map beyond [0 ..< n - length v]"

type_synonym 's reader = "nat \<Rightarrow> u64 \<Rightarrow> u16 \<Rightarrow> 's \<Rightarrow> ((DiskAccessError + u8 list) \<times> 's) outcome"

definition get_data ::
  "bool \<Rightarrow> 's reader \<Rightarrow> (nat \<Rightarrow> u8) \<Rightarrow> (nat \<times> FatBootSector) option \<Rightarrow> File \<Rightarrow> 's \<Rightarrow> ((DiskAccessError + u8 list) \<times> 's) outcome" where
  "get_data oc read beyond BOOT_SECTOR f st =
     bindP (Some (expect ''no boot sector initialized'' BOOT_SECTOR)) (\<lambda>(drive_num, boot_sector).
     bindP (Some (first_data_sector oc boot_sector)) (\<lambda>first_data.
     bindP (Some (first_sector oc boot_sector first_data (get_data_addr f))) (\<lambda>first.
     bindP (Some (div_ck (fat_file_size f) (ucast (bytes_per_sector boot_sector)))) (\<lambda>n.
     bindP (Some (add_ck oc n 1)) (\<lambda>sector_count.
     bindP (read drive_num (ucast first) (ucast sector_count) st) (\<lambda>(r, st).
     Some (Inr (case r of Inl e \<Rightarrow> Inl e | Inr cluster_data \<Rightarrow> Inr (set_len beyond (unat (fat_file_size f)) cluster_data), st))))))))"

section \<open>Directories\<close>

fun array_chunks :: "nat \<Rightarrow> u8 list \<Rightarrow> u8 list list" where
  "array_chunks n xs = (if n = 0 \<or> length xs < n then [] else take n xs # array_chunks n (drop n xs))"

declare array_chunks.simps [simp del]

text \<open>Reading the entries of one cluster, at the head of the loop of \<^verbatim>\<open>parse_directory\<close>.\<close>

definition read_cluster ::
  "bool \<Rightarrow> 's reader \<Rightarrow> nat \<Rightarrow> FatBootSector \<Rightarrow> u32 \<Rightarrow> u32 \<Rightarrow> 's \<Rightarrow> (u8 list list \<times> 's) outcome" where
  "read_cluster oc read drive_num b first_data cluster_idx st =
     bindP (Some (first_sector oc b first_data cluster_idx)) (\<lambda>first.
     bindP (read drive_num (ucast first) (ucast (sectors_per_cluster b)) st) (\<lambda>(r, st).
     case r of Inl e \<Rightarrow> Some (Inl (UnwrapFailed ''failed to read root cluster''))
     | Inr cluster_data \<Rightarrow> Some (Inr (array_chunks 32 cluster_data, st))))"

abbreviation unwrap_none :: string where
  "unwrap_none \<equiv> ''called `Option::unwrap()` on a `None` value''"

definition dot :: "u8 list" where
  "dot = 0x2E # replicate 10 0x20"

definition dot_dot :: "u8 list" where
  "dot_dot = 0x2E # 0x2E # replicate 9 0x20"

text \<open>
  The loop: \<open>entries\<close> are the entries of cluster \<open>cluster_idx\<close> still to be examined, \<open>parent\<close> the node being filled. A
  directory is parsed by a recursive call that starts with its own first cluster. What does not change is
  \<open>env\<close>: the overflow mode, the tree operations and \<open>read_cluster\<close> on the drive and boot sector in use.
\<close>

type_synonym ('t, 's) parse_env = "bool \<times> 't trees \<times> (u32 \<Rightarrow> 's \<Rightarrow> (u8 list list \<times> 's) outcome)"

partial_function (option) parse_entries :: "('t, 's) parse_env \<Rightarrow> u32 \<Rightarrow> u8 list list \<Rightarrow> 't \<Rightarrow> 's \<Rightarrow> ('t \<times> 's) outcome" where
  "parse_entries env cluster_idx entries parent st =
     (case env of (oc, T, cluster) \<Rightarrow>
      case entries of
        [] \<Rightarrow>
          bindP (Some (add_ck oc cluster_idx 1)) (\<lambda>cluster_idx.
          bindP (cluster cluster_idx st) (\<lambda>(entries, st).
          parse_entries env cluster_idx entries parent st))
      | entry # rest \<Rightarrow>
          (if entry ! 0 = 0 then Some (Inr (parent, st))
           else if entry ! 0 = 0xE5 then parse_entries env cluster_idx rest parent st
           else if entry ! 11 = 0x0F then Some (Inl (ExplicitPanic ''detected long filename''))
           else bindP (Some (get_name (file_of entry))) (\<lambda>name.
             if name = dot \<or> name = dot_dot then parse_entries env cluster_idx rest parent st
             else if directory (file_of entry) then
               bindP (Some (expect unwrap_none (back_mut T (push_back T parent (tree_new T (file_of entry)))))) (\<lambda>(back, put).
               bindP (cluster (get_data_addr (file_of entry)) st) (\<lambda>(entries, st).
               bindP (parse_entries env (get_data_addr (file_of entry)) entries back st) (\<lambda>(back, st).
               parse_entries env cluster_idx rest (put back) st)))
             else parse_entries env cluster_idx rest (push_back T parent (tree_new T (file_of entry))) st)))"

definition parse_directory ::
  "bool \<Rightarrow> 't trees \<Rightarrow> 's reader \<Rightarrow> (nat \<times> FatBootSector) option \<Rightarrow> u32 \<Rightarrow> 't \<Rightarrow> 's \<Rightarrow> ('t \<times> 's) outcome" where
  "parse_directory oc T read BOOT_SECTOR cluster_idx parent st =
     bindP (Some (expect ''boot sector not initialized'' BOOT_SECTOR)) (\<lambda>(drive_num, b).
     bindP (Some (first_data_sector oc b)) (\<lambda>first_data.
     bindP (read_cluster oc read drive_num b first_data cluster_idx st) (\<lambda>(entries, st).
     parse_entries (oc, T, read_cluster oc read drive_num b first_data) cluster_idx entries parent st)))"

text \<open>The mounted file system: the cells \<^verbatim>\<open>BOOT_SECTOR\<close> and \<^verbatim>\<open>FILE_SYSTEM\<close>.\<close>

record 't fs_cells =
  BOOT_SECTOR :: "(nat \<times> FatBootSector) option"
  FILE_SYSTEM :: "'t option"

definition fs_init ::
  "bool \<Rightarrow> 't trees \<Rightarrow> 's reader \<Rightarrow> 'm option \<Rightarrow> nat \<Rightarrow> 't fs_cells \<Rightarrow> 's \<Rightarrow> ('t fs_cells \<times> 's) outcome" where
  "fs_init oc T read MAPPER drive_num cells st =
     bindP (Some (expect ''mapper not initialized'' MAPPER)) (\<lambda>_.
     bindP (read drive_num 0 1 st) (\<lambda>(r, st).
     case r of Inl e \<Rightarrow> Some (Inl (UnwrapFailed ''aint no way'')) | Inr sector_0 \<Rightarrow>
     case array_chunks 90 sector_0 of [] \<Rightarrow> Some (Inl (UnwrapFailed unwrap_none)) | boot_sector_bytes # _ \<Rightarrow>
     let boot_sector = boot_sector_of boot_sector_bytes;
         cells = cells\<lparr>BOOT_SECTOR := init_once (BOOT_SECTOR cells) (drive_num, boot_sector)\<rparr> in
     bindP (parse_directory oc T read (BOOT_SECTOR cells) (root_cluster (extended_section boot_sector)) (tree_new T file_default) st) (\<lambda>(fs, st).
     Some (Inr (cells\<lparr>FILE_SYSTEM := Some fs\<rparr>, st)))))"

section \<open>The shell\<close>

definition BIN :: "u8 list" where
  "BIN = [0x42, 0x49, 0x4E] @ replicate 8 0x20"

definition BASH :: "u8 list" where
  "BASH = [0x42, 0x41, 0x53, 0x48] @ replicate 7 0x20"

fun find_child :: "'t trees \<Rightarrow> u8 list \<Rightarrow> 't list \<Rightarrow> 't option rust" where
  "find_child T n [] = Inr None"
| "find_child T n (c # cs) = bindE (get_name (node_data T c)) (\<lambda>name. if name = n then Inr (Some c) else find_child T n cs)"

definition get_bash ::
  "bool \<Rightarrow> 't trees \<Rightarrow> 's reader \<Rightarrow> (nat \<Rightarrow> u8) \<Rightarrow> 'm option \<Rightarrow> (nat \<times> FatBootSector) option \<Rightarrow> 't \<Rightarrow> 's \<Rightarrow> (u8 list \<times> 's) outcome" where
  "get_bash oc T read beyond MAPPER boot fs st =
     bindP (Some (find_child T BIN (node_iter T fs))) (\<lambda>r.
     bindP (Some (expect ''no bin folder in root directory'' r)) (\<lambda>bin.
     bindP (Some (find_child T BASH (node_iter T bin))) (\<lambda>r.
     bindP (Some (expect ''no bash executable in /bin'' r)) (\<lambda>bash.
     bindP (Some (expect unwrap_none MAPPER)) (\<lambda>_.
     bindP (get_data oc read beyond boot (node_data T bash) st) (\<lambda>(r, st).
     case r of Inl e \<Rightarrow> Some (Inl (UnwrapFailed ''failed to get bash data (corrupted disk?)''))
     | Inr bytes \<Rightarrow> Some (Inr (bytes, st))))))))"

section \<open>What the file system reads\<close>

text \<open>
  \<open>content st l\<close> is sector \<open>l\<close> of the drive. A reader of sectors returns the sectors asked for and leaves the disk
  as it is; the AHCI driver does so on an idle drive.
\<close>

definition sector_reads :: "'s reader \<Rightarrow> nat \<Rightarrow> ('s \<Rightarrow> u64 \<Rightarrow> u8 list) \<Rightarrow> ('s \<Rightarrow> bool) \<Rightarrow> bool" where
  "sector_reads read d content good \<longleftrightarrow>
     (\<forall>st l. length (content st l) = 512) \<and>
     (\<forall>st lba n. good st \<and> 0 < unat n \<and> unat n \<le> 8192 \<and> unat lba < 2 ^ 48 \<longrightarrow>
        (\<exists>st'. read d lba n st = Some (Inr (Inr (sector_range (content st) lba (unat n)), st')) \<and> good st' \<and> content st' = content st))"

definition driver_read ::
  "bool \<Rightarrow> 'd rd \<Rightarrow> 'd wr \<Rightarrow> (usize \<Rightarrow> HBAPRDTEntry \<Rightarrow> HBAPRDTEntry rust) \<Rightarrow> (u64 \<Rightarrow> u64 option) \<Rightarrow> (nat \<Rightarrow> 'd disk \<Rightarrow> u64) \<Rightarrow> 'd disk reader" where
  "driver_read oc rd wr with_byte_count translate_addr vec d lba n st =
     read_sectors oc rd wr with_byte_count translate_addr (vec (512 * unat n) st) d lba n st"

lemma driver_provides:
  assumes "ahci_port_doc rd wr ready sectors cap h p" and "drop_bit 8 cap AND 0xF0 \<noteq> 0" and "with_byte_count_doc with_byte_count"
    and "\<And>n st. \<exists>base. contiguous translate_addr (vec n st) base n"
  shows "sector_reads (driver_read oc rd wr with_byte_count translate_addr vec) d (\<lambda>st. sectors h p (hardware st)) (drive ready h p d)"
  unfolding sector_reads_def driver_read_def
proof (intro conjI allI impI)
  show "length (sectors h p (hardware st) l) = 512" for st l
    using assms(1) [unfolded ahci_port_doc_def, THEN conjunct1] by blast
  fix st and lba :: u64 and n :: u16
  assume a: "drive ready h p d st \<and> 0 < unat n \<and> unat n \<le> 8192 \<and> unat lba < 2 ^ 48"
  obtain base where "contiguous translate_addr (vec (512 * unat n) st) base (512 * unat n)" using assms(4) by blast
  from read_sectors_ok [where ready = ready, OF assms(1) _ assms(2,3) this] a
  show "\<exists>st'. read_sectors oc rd wr with_byte_count translate_addr (vec (512 * unat n) st) d lba n st =
      Some (Inr (Inr (sector_range (sectors h p (hardware st)) lba (unat n)), st')) \<and> drive ready h p d st' \<and>
      sectors h p (hardware st') = sectors h p (hardware st)" by blast
qed

text \<open>Sector numbers as the FAT specification has them.\<close>

definition data_start :: "FatBootSector \<Rightarrow> nat" where
  "data_start b = unat (reserved_sector_count b) + unat (table_count b) * unat (fat_size b) +
     (unat (root_entry_count b) * 32 + 511) div 512"

definition cluster_sector :: "FatBootSector \<Rightarrow> u32 \<Rightarrow> nat" where
  "cluster_sector b c = data_start b + (unat c - 2) * unat (sectors_per_cluster b)"

definition geometry_ok :: "FatBootSector \<Rightarrow> bool" where
  "geometry_ok b \<longleftrightarrow> bytes_per_sector b = 512 \<and> 0 < sectors_per_cluster b \<and> unat (root_entry_count b) * 32 + 512 < 2 ^ 16 \<and> data_start b < 2 ^ 32"

definition cluster_ok :: "FatBootSector \<Rightarrow> u32 \<Rightarrow> bool" where
  "cluster_ok b c \<longleftrightarrow> 2 \<le> c \<and> cluster_sector b c < 2 ^ 32"

lemma first_data_sector_ok:
  assumes "geometry_ok b"
  shows "\<exists>f. first_data_sector oc b = Inr f \<and> unat f = data_start b"
proof -
  have g: "bytes_per_sector b = 512" "unat (root_entry_count b) * 32 + 512 < 65536" "data_start b < 4294967296"
    using assms by (simp_all add: geometry_ok_def)
  let ?r = "root_entry_count b * 32" and ?t = "ucast (table_count b) * fat_size b"
  have r: "unat ?r = unat (root_entry_count b) * 32" using g(2) by (subst unat_mult_small) simp_all
  have r1: "unat (?r + 512) = unat (root_entry_count b) * 32 + 512" using g(2) r by (subst unat_add_small) simp_all
  have le: "(1 :: u16) \<le> ?r + 512" by (simp add: word_le_nat_alt r1)
  have r2: "unat (?r + 512 - 1) = unat (root_entry_count b) * 32 + 511" using unat_sub [OF le] r1 by (simp only: unat_1)
  let ?d = "(?r + 512 - 1) div 512"
  have d: "unat ?d = (unat (root_entry_count b) * 32 + 511) div 512" by (simp only: unat_div r2) simp
  have start: "data_start b = unat (reserved_sector_count b) + unat (table_count b) * unat (fat_size b) + unat ?d"
    by (simp only: data_start_def d)
  have u: "unat (ucast (table_count b) :: u32) = unat (table_count b)" "unat (ucast (reserved_sector_count b) :: u32) = unat (reserved_sector_count b)"
    "unat (ucast ?d :: u32) = unat ?d"
    by (simp_all add: unat_ucast_up)
  have t: "unat ?t = unat (table_count b) * unat (fat_size b)" using g(3) start u by (subst unat_mult_small) simp_all
  have t1: "unat (ucast (reserved_sector_count b) + ?t) = unat (reserved_sector_count b) + unat ?t"
    using g(3) start u t by (subst unat_add_small) simp_all
  have "first_data_sector oc b = Inr (ucast (reserved_sector_count b) + ?t + ucast ?d)"
    unfolding first_data_sector_def g(1)
    using g(2,3) start u t t1 r r1 le by (simp add: mul_ck_ok add_ck_ok sub_ck_ok div_ck_ok)
  moreover have "unat (ucast (reserved_sector_count b) + ?t + ucast ?d) = data_start b"
    using g(3) start u t t1 by (subst unat_add_small) simp_all
  ultimately show ?thesis by blast
qed

lemma first_sector_ok:
  assumes "cluster_ok b c" and "unat first_data = data_start b"
  shows "\<exists>s. first_sector oc b first_data c = Inr s \<and> unat s = cluster_sector b c"
proof -
  have c: "2 \<le> c" "data_start b + (unat c - 2) * unat (sectors_per_cluster b) < 4294967296"
    using assms(1) by (simp_all add: cluster_ok_def cluster_sector_def)
  have c2: "unat (c - 2) = unat c - 2" using c(1) by (simp add: unat_sub)
  have u: "unat (ucast (sectors_per_cluster b) :: u32) = unat (sectors_per_cluster b)" by (simp add: unat_ucast_up)
  have m: "unat ((c - 2) * ucast (sectors_per_cluster b)) = (unat c - 2) * unat (sectors_per_cluster b)"
    using c(2) c2 u by (subst unat_mult_small) simp_all
  have "unat ((c - 2) * ucast (sectors_per_cluster b) + first_data) = cluster_sector b c"
    using c(2) m assms(2) by (subst unat_add_small) (simp_all add: cluster_sector_def)
  moreover have "first_sector oc b first_data c = Inr ((c - 2) * ucast (sectors_per_cluster b) + first_data)"
    using c c2 u m assms(2) by (simp add: first_sector_def sub_ck_ok mul_ck_ok add_ck_ok)
  ultimately show ?thesis by blast
qed

definition cluster_entries :: "FatBootSector \<Rightarrow> (u64 \<Rightarrow> u8 list) \<Rightarrow> u32 \<Rightarrow> u8 list list" where
  "cluster_entries b sec c = array_chunks 32 (sector_range sec (of_nat (cluster_sector b c)) (unat (sectors_per_cluster b)))"

lemma read_cluster_ok:
  assumes "sector_reads read d content good" and "geometry_ok b" and "unat first_data = data_start b" and "cluster_ok b c" and "good st"
  shows "\<exists>st'. read_cluster oc read d b first_data c st = Some (Inr (cluster_entries b (content st) c, st')) \<and> good st' \<and> content st' = content st"
proof -
  obtain s where s: "first_sector oc b first_data c = Inr s" "unat s = cluster_sector b c"
    using first_sector_ok [OF assms(4,3)] by blast
  have n: "unat (ucast (sectors_per_cluster b) :: u16) = unat (sectors_per_cluster b)" by (simp add: unat_ucast_up)
  have l: "(ucast s :: u64) = of_nat (cluster_sector b c)" using s(2) by (metis of_nat_unat)
  have spc: "0 < unat (sectors_per_cluster b)" "unat (sectors_per_cluster b) < 256"
    using assms(2) unat_u8 by (auto simp: geometry_ok_def unat_gt_0)
  have "unat (ucast s :: u64) < 2 ^ 48" using s(2) assms(4) by (simp add: unat_ucast_up cluster_ok_def)
  then obtain st' where "read d (ucast s) (ucast (sectors_per_cluster b)) st =
      Some (Inr (Inr (sector_range (content st) (ucast s) (unat (sectors_per_cluster b))), st'))" "good st'" "content st' = content st"
    using assms(1) [unfolded sector_reads_def, THEN conjunct2, rule_format, of st "ucast (sectors_per_cluster b)" "ucast s"] assms(5) spc n
    by (simp only: n) auto
  then show ?thesis
    unfolding read_cluster_def s(1) by (simp add: cluster_entries_def l)
qed

section \<open>Encodings\<close>

text \<open>The bytes of a boot sector and of a directory entry.\<close>

definition boot_sector_wf :: "FatBootSector \<Rightarrow> bool" where
  "boot_sector_wf b \<longleftrightarrow> length (boot_jmp b) = 3 \<and> length (oem_name b) = 8 \<and> length (ext_reserved_0 (extended_section b)) = 12 \<and>
     length (volume_label (extended_section b)) = 11 \<and> length (fat_type_label (extended_section b)) = 8"

definition boot_sector_bytes :: "FatBootSector \<Rightarrow> u8 list" where
  "boot_sector_bytes b =
     boot_jmp b @ oem_name b @ le_bytes 2 (bytes_per_sector b) @ [sectors_per_cluster b] @ le_bytes 2 (reserved_sector_count b) @
     [table_count b] @ le_bytes 2 (root_entry_count b) @ le_bytes 2 (total_sectors_16 b) @ [media_type b] @ le_bytes 2 (table_size_16 b) @
     le_bytes 2 (sectors_per_track b) @ le_bytes 2 (head_side_count b) @ le_bytes 4 (hidden_sector_count b) @ le_bytes 4 (total_sectors_32 b) @
     (let x = extended_section b in
       le_bytes 4 (table_size_32 x) @ le_bytes 2 (extended_flags x) @ le_bytes 2 (fat_version x) @ le_bytes 4 (root_cluster x) @
       le_bytes 2 (fat_info x) @ le_bytes 2 (backup_boot_sector x) @ ext_reserved_0 x @ [drive_number x] @ [ext_reserved_1 x] @
       [boot_signature x] @ le_bytes 4 (volume_id x) @ volume_label x @ fat_type_label x)"

definition file_bytes :: "File \<Rightarrow> u8 list" where
  "file_bytes f =
     file_name f @ [attributes f] @ [file_reserved f] @ [creation_duration f] @ le_bytes 2 (creation_time f) @ le_bytes 2 (creation_date f) @
     le_bytes 2 (last_accessed f) @ le_bytes 2 (cluster_h f) @ le_bytes 2 (modified_time f) @ le_bytes 2 (modified_date f) @
     le_bytes 2 (cluster_l f) @ le_bytes 4 (fat_file_size f)"

lemma le_word_byte: "le_word [x] = x"
  by simp

lemmas decode_simps = field_skip field_here le_word_byte le_word_le_bytes length_le_bytes

lemma length_boot_sector_bytes: "boot_sector_wf b \<Longrightarrow> length (boot_sector_bytes b) = 90"
  by (simp add: boot_sector_wf_def boot_sector_bytes_def Let_def length_le_bytes)

lemma boot_sector_of_bytes: "boot_sector_wf b \<Longrightarrow> boot_sector_of (boot_sector_bytes b) = b"
  unfolding boot_sector_of_def boot_sector_bytes_def boot_sector_wf_def Let_def
  by (simp add: decode_simps del: append_Cons append_Nil)

lemma file_of_bytes: "length (file_name f) = 11 \<Longrightarrow> file_of (file_bytes f) = f"
  unfolding file_of_def file_bytes_def
  by (simp add: decode_simps del: append_Cons append_Nil)

interpretation fat_boot_sector: packed_struct boot_sector_of boot_sector_bytes boot_sector_wf 90
  by unfold_locales (simp_all add: boot_sector_of_bytes length_boot_sector_bytes)

interpretation fat_file: packed_struct file_of file_bytes "\<lambda>f. length (file_name f) = 11" 32
  by unfold_locales (simp_all add: file_of_bytes, simp add: file_bytes_def)

section \<open>Parsing a directory\<close>

definition cluster_reads :: "(u32 \<Rightarrow> 's \<Rightarrow> (u8 list list \<times> 's) outcome) \<Rightarrow> (u32 \<Rightarrow> u8 list list) \<Rightarrow> (u32 \<Rightarrow> bool) \<Rightarrow> ('s \<Rightarrow> bool) \<Rightarrow> bool" where
  "cluster_reads cluster C ok keeps \<longleftrightarrow>
     (\<forall>c st. ok c \<and> keeps st \<longrightarrow> (\<exists>st'. cluster c st = Some (Inr (C c, st')) \<and> keeps st')) \<and> (\<forall>c. ok c \<longrightarrow> 2 \<le> c)"

text \<open>
  The layout of a directory: its entries stand in consecutive clusters, up to an entry that starts with 0. Deleted
  entries and the two dot entries are no children; the others are the children's files, in order.
\<close>

definition entry_ok :: "u8 list \<Rightarrow> bool" where
  "entry_ok e \<longleftrightarrow> length e = 32 \<and> e ! 0 \<noteq> 0 \<and> (e ! 0 \<noteq> 0xE5 \<longrightarrow> e ! 11 \<noteq> 0x0F \<and> utf8_ok (take 11 e))"

definition visible :: "u8 list \<Rightarrow> bool" where
  "visible e \<longleftrightarrow> e ! 0 \<noteq> 0xE5 \<and> take 11 e \<noteq> dot \<and> take 11 e \<noteq> dot_dot"

definition clusters_from :: "(u32 \<Rightarrow> u8 list list) \<Rightarrow> u32 \<Rightarrow> nat \<Rightarrow> u8 list list" where
  "clusters_from C c k = concat (map (\<lambda>i. C (c + of_nat i)) [0 ..< k])"

definition dir_block :: "(u32 \<Rightarrow> u8 list list) \<Rightarrow> (u32 \<Rightarrow> bool) \<Rightarrow> u32 \<Rightarrow> File list \<Rightarrow> bool" where
  "dir_block C ok c fs \<longleftrightarrow>
     (\<exists>k es z rest. (\<forall>i \<le> k. ok (c + of_nat i)) \<and> clusters_from C c (Suc k) = es @ z # rest \<and> z ! 0 = 0 \<and>
        (\<forall>e \<in> set es. entry_ok e) \<and> filter visible es = map file_bytes fs)"

fun node_ok :: "(u32 \<Rightarrow> u8 list list) \<Rightarrow> (u32 \<Rightarrow> bool) \<Rightarrow> Node \<Rightarrow> bool" where
  "node_ok C ok (Node f cs) \<longleftrightarrow>
     length (file_name f) = 11 \<and>
     (if directory f then dir_block C ok (get_data_addr f) (map data cs) \<and> (\<forall>n \<in> set cs. node_ok C ok n) else cs = [])"

definition node_parses :: "('t, 's) parse_env \<Rightarrow> ('t \<Rightarrow> Node) \<Rightarrow> ('s \<Rightarrow> bool) \<Rightarrow> Node \<Rightarrow> bool" where
  "node_parses env shape keeps n \<longleftrightarrow>
     length (file_name (data n)) = 11 \<and>
     (if directory (data n) then
        \<forall>back st. shape back = Node (data n) [] \<and> keeps st \<longrightarrow>
          (\<exists>es st1 back' st'. snd (snd env) (get_data_addr (data n)) st = Some (Inr (es, st1)) \<and>
             parse_entries env (get_data_addr (data n)) es back st1 = Some (Inr (back', st')) \<and> shape back' = n \<and> keeps st')
      else children n = [])"

lemma nth_0_take: "0 < n \<Longrightarrow> take n e ! 0 = e ! 0"
  by simp

lemma entry_name:
  assumes "entry_ok e" and "e ! 0 \<noteq> 0xE5"
  shows "get_name (file_of e) = Inr (take 11 e)"
  using assms by (simp add: entry_ok_def get_name_def file_of_def field_def)

lemma parse_hidden:
  assumes "entry_ok e" and "\<not> visible e"
  shows "parse_entries (oc, T, cluster) c (e # es) parent st = parse_entries (oc, T, cluster) c es parent st"
  using assms entry_name [OF assms(1)]
  by (subst parse_entries.simps) (auto simp: bindP_simps entry_ok_def visible_def)

lemma push_new:
  assumes "trees_doc T shape"
  shows "shape (push_back T t (tree_new T f)) = Node (data (shape t)) (children (shape t) @ [Node f []])"
  using assms by (simp add: trees_doc_def)

lemma parse_visible:
  assumes doc: "trees_doc T shape" and e: "entry_ok e" "visible e" "e = file_bytes (data n)"
    and n: "node_parses (oc, T, cluster) shape keeps n" and "keeps st"
  shows "\<exists>parent' st'. parse_entries (oc, T, cluster) c (e # es) parent st = parse_entries (oc, T, cluster) c es parent' st' \<and>
    shape parent' = Node (data (shape parent)) (children (shape parent) @ [n]) \<and> keeps st'"
proof (cases "directory (data n)")
  case False
  let ?p = "push_back T parent (tree_new T (data n))"
  have f: "file_of e = data n" using n e(3) by (simp add: node_parses_def fat_file.decode_encode)
  have "n = Node (data n) []" using n False by (cases n) (simp add: node_parses_def)
  then have "shape ?p = Node (data (shape parent)) (children (shape parent) @ [n])" using push_new [OF doc] by simp
  moreover have "parse_entries (oc, T, cluster) c (e # es) parent st = parse_entries (oc, T, cluster) c es ?p st"
    using e(1,2) entry_name [OF e(1)] False f
    by (subst parse_entries.simps) (simp add: bindP_simps entry_ok_def visible_def)
  ultimately show ?thesis using assms(6) by blast
next
  case True
  let ?p = "push_back T parent (tree_new T (data n))"
  have f: "file_of e = data n" using n e(3) by (simp add: node_parses_def fat_file.decode_encode)
  have p: "shape ?p = Node (data (shape parent)) (children (shape parent) @ [Node (data n) []])" by (rule push_new [OF doc])
  then obtain b put where b: "back_mut T ?p = Some (b, put)" "shape b = Node (data n) []"
    "\<And>b'. shape (put b') = Node (data (shape parent)) (children (shape parent) @ [shape b'])"
    using doc [unfolded trees_doc_def, THEN conjunct2, THEN conjunct2, THEN conjunct1, rule_format, of ?p] by auto
  obtain es1 st1 b' st' where r: "cluster (get_data_addr (data n)) st = Some (Inr (es1, st1))"
    "parse_entries (oc, T, cluster) (get_data_addr (data n)) es1 b st1 = Some (Inr (b', st'))" "shape b' = n" "keeps st'"
    using n True b(2) assms(6) by (simp add: node_parses_def) blast
  have "parse_entries (oc, T, cluster) c (e # es) parent st = parse_entries (oc, T, cluster) c es (put b') st'"
    using e(1,2) entry_name [OF e(1)] True f b(1) r(1,2)
    by (subst parse_entries.simps) (simp add: bindP_simps entry_ok_def visible_def expect_def)
  then show ?thesis using b(3) r(3,4) by blast
qed

lemma parse_segment:
  assumes doc: "trees_doc T shape"
  shows "keeps st \<Longrightarrow> \<forall>e \<in> set es. entry_ok e \<Longrightarrow> filter visible es = map (file_bytes \<circ> data) cs \<Longrightarrow>
    \<forall>n \<in> set cs. node_parses (oc, T, cluster) shape keeps n \<Longrightarrow>
    \<exists>parent' st'. parse_entries (oc, T, cluster) c (es @ rest) parent st = parse_entries (oc, T, cluster) c rest parent' st' \<and>
      shape parent' = Node (data (shape parent)) (children (shape parent) @ cs) \<and> keeps st'"
proof (induction es arbitrary: cs parent st)
  case Nil
  then show ?case by auto
next
  case (Cons e es)
  show ?case
  proof (cases "visible e")
    case False
    then show ?thesis using Cons parse_hidden [of e oc T cluster c "es @ rest" parent st] by simp
  next
    case True
    then obtain n cs' where cs: "cs = n # cs'" "e = file_bytes (data n)" "filter visible es = map (file_bytes \<circ> data) cs'"
      using Cons.prems(3) by (cases cs) auto
    obtain p1 st1 where 1: "parse_entries (oc, T, cluster) c (e # es @ rest) parent st = parse_entries (oc, T, cluster) c (es @ rest) p1 st1"
      "shape p1 = Node (data (shape parent)) (children (shape parent) @ [n])" "keeps st1"
      using parse_visible [where keeps = keeps, OF doc _ True cs(2)] Cons.prems cs(1) by (metis list.set_intros(1))
    obtain p2 st2 where "parse_entries (oc, T, cluster) c (es @ rest) p1 st1 = parse_entries (oc, T, cluster) c rest p2 st2"
      "shape p2 = Node (data (shape p1)) (children (shape p1) @ cs')" "keeps st2"
      using Cons.IH [OF 1(3) _ cs(3)] Cons.prems cs(1) by fastforce
    then show ?thesis using 1 cs(1) by auto
  qed
qed

text \<open>A walk through the rest \<open>es0\<close> of the current cluster and the \<open>k\<close> clusters after it.\<close>

lemma clusters_from_Suc: "clusters_from C c (Suc k) = C c @ clusters_from C (c + 1) k"
  by (simp add: clusters_from_def upt_conv_Cons map_Suc_upt [symmetric] comp_def algebra_simps del: upt_Suc)

lemma parse_stop: "z ! 0 = 0 \<Longrightarrow> parse_entries (oc, T, cluster) c (z # rest) parent st = Some (Inr (parent, st))"
  by (subst parse_entries.simps) simp

lemma parse_segment_stop:
  assumes "trees_doc T shape" and "z ! 0 = 0" and "keeps st" and "\<forall>e \<in> set es. entry_ok e" and "filter visible es = map (file_bytes \<circ> data) cs"
    and "\<forall>n \<in> set cs. node_parses (oc, T, cluster) shape keeps n"
  shows "\<exists>t st'. parse_entries (oc, T, cluster) c (es @ z # rest) parent st = Some (Inr (t, st')) \<and>
    shape t = Node (data (shape parent)) (children (shape parent) @ cs) \<and> keeps st'"
  using parse_segment [where keeps = keeps and rest = "z # rest" and c = c and parent = parent, OF assms(1,3-)]
  unfolding parse_stop [OF assms(2)] by blast

lemma parse_next:
  assumes "cluster_reads cluster C ok keeps" and "ok (c + 1)" and "keeps st"
  shows "\<exists>st'. parse_entries (oc, T, cluster) c [] parent st = parse_entries (oc, T, cluster) (c + 1) (C (c + 1)) parent st' \<and> keeps st'"
proof -
  obtain st' where "cluster (c + 1) st = Some (Inr (C (c + 1), st'))" "keeps st'"
    using assms unfolding cluster_reads_def by blast
  moreover have "2 \<le> c + 1" using assms(1,2) unfolding cluster_reads_def by blast
  then have "c \<noteq> 0xFFFFFFFF" by auto
  then have "unat c + 1 < 2 ^ 32" using unat_bound [of c] by (simp add: word_unat_eq_iff)
  ultimately have "parse_entries (oc, T, cluster) c [] parent st = parse_entries (oc, T, cluster) (c + 1) (C (c + 1)) parent st'"
    by (subst parse_entries.simps) (simp add: add_ck_ok bindP_simps)
  then show ?thesis using \<open>keeps st'\<close> by blast
qed

lemma parse_walk:
  assumes doc: "trees_doc T shape" and C: "cluster_reads cluster C ok keeps" and z: "z ! 0 = 0"
  shows "\<forall>i < k. ok (c + 1 + of_nat i) \<Longrightarrow> es0 @ clusters_from C (c + 1) k = es @ z # rest \<Longrightarrow> keeps st \<Longrightarrow>
    \<forall>e \<in> set es. entry_ok e \<Longrightarrow> filter visible es = map (file_bytes \<circ> data) cs \<Longrightarrow>
    \<forall>n \<in> set cs. node_parses (oc, T, cluster) shape keeps n \<Longrightarrow>
    \<exists>t st'. parse_entries (oc, T, cluster) c es0 parent st = Some (Inr (t, st')) \<and>
      shape t = Node (data (shape parent)) (children (shape parent) @ cs) \<and> keeps st'"
proof (induction k arbitrary: c es0 es cs parent st)
  case 0
  then have "es0 = es @ z # rest" by (simp add: clusters_from_def)
  then show ?case using parse_segment_stop [where keeps = keeps, OF doc z 0(3-6)] by blast
next
  case (Suc k)
  from Suc.prems(2) consider r where "es0 = es @ z # r" | es' where "es = es0 @ es'" "clusters_from C (c + 1) (Suc k) = es' @ z # rest"
    unfolding append_eq_append_conv2 append_eq_Cons_conv by fastforce
  then show ?case
  proof cases
    case 1
    then show ?thesis using parse_segment_stop [where keeps = keeps, OF doc z Suc.prems(3-6)] by blast
  next
    case 2
    obtain cs1 cs2 where cs: "cs = cs1 @ cs2" "filter visible es0 = map (file_bytes \<circ> data) cs1" "filter visible es' = map (file_bytes \<circ> data) cs2"
      using Suc.prems(5) unfolding 2(1) filter_append append_eq_map_conv by metis
    have "\<exists>p1 st1. parse_entries (oc, T, cluster) c (es0 @ []) parent st = parse_entries (oc, T, cluster) c [] p1 st1 \<and>
        shape p1 = Node (data (shape parent)) (children (shape parent) @ cs1) \<and> keeps st1"
      by (rule parse_segment [where keeps = keeps, OF doc Suc.prems(3) _ cs(2)]) (use 2(1) Suc.prems(4,6) cs(1) in \<open>simp_all\<close>)
    then obtain p1 st1 where 1: "parse_entries (oc, T, cluster) c es0 parent st = parse_entries (oc, T, cluster) c [] p1 st1"
      "shape p1 = Node (data (shape parent)) (children (shape parent) @ cs1)" "keeps st1" by auto
    obtain st2 where st2: "parse_entries (oc, T, cluster) c [] p1 st1 = parse_entries (oc, T, cluster) (c + 1) (C (c + 1)) p1 st2" "keeps st2"
      using parse_next [where c = c and oc = oc and T = T and parent = p1, OF C _ 1(3)] Suc.prems(1) [rule_format, of 0] by auto
    have "ok (c + 1 + of_nat (Suc i))" if "i < k" for i using Suc.prems(1) that by (metis Suc_mono)
    then have ok: "\<forall>i < k. ok (c + 1 + 1 + of_nat i)" by (simp add: add.assoc)
    have "\<exists>t st'. parse_entries (oc, T, cluster) (c + 1) (C (c + 1)) p1 st2 = Some (Inr (t, st')) \<and>
        shape t = Node (data (shape p1)) (children (shape p1) @ cs2) \<and> keeps st'"
      by (rule Suc.IH [OF ok _ st2(2) _ cs(3)]) (use 2 Suc.prems(4,6) cs(1) in \<open>simp_all add: clusters_from_Suc\<close>)
    then show ?thesis using 1 st2 cs(1) by auto
  qed
qed

lemma dir_walk:
  assumes "trees_doc T shape" and C: "cluster_reads cluster C ok keeps" and "dir_block C ok c (map data cs)" and "keeps st"
    and "\<forall>n \<in> set cs. node_parses (oc, T, cluster) shape keeps n" and "shape parent = Node f []"
  shows "\<exists>t st'. parse_entries (oc, T, cluster) c (C c) parent st = Some (Inr (t, st')) \<and> shape t = Node f cs \<and> keeps st'"
proof -
  obtain k es z rest where b: "\<forall>i \<le> k. ok (c + of_nat i)" "C c @ clusters_from C (c + 1) k = es @ z # rest" "z ! 0 = 0"
    "\<forall>e \<in> set es. entry_ok e" "filter visible es = map (file_bytes \<circ> data) cs"
    using assms(3) unfolding dir_block_def clusters_from_Suc map_map by blast
  have "ok (c + of_nat (Suc i))" if "i < k" for i using b(1) that by (metis Suc_leI)
  then have "\<forall>i < k. ok (c + 1 + of_nat i)" by (simp add: add.assoc)
  from parse_walk [OF assms(1) C b(3) this b(2) assms(4) b(4,5) assms(5), of parent] show ?thesis
    unfolding assms(6) Node.sel append_Nil by blast
qed

lemma dir_parses:
  assumes "trees_doc T shape" and C: "cluster_reads cluster C ok keeps" and dir: "dir_block C ok c (map data cs)" and "keeps st"
    and "\<forall>n \<in> set cs. node_parses (oc, T, cluster) shape keeps n" and "shape parent = Node f []"
  shows "\<exists>es st1 t st'. cluster c st = Some (Inr (es, st1)) \<and> parse_entries (oc, T, cluster) c es parent st1 = Some (Inr (t, st')) \<and>
    shape t = Node f cs \<and> keeps st'"
proof -
  obtain k where "\<forall>i \<le> k. ok (c + of_nat i)" using dir unfolding dir_block_def by blast
  from this [rule_format, of 0] have "ok c" by simp
  then obtain st1 where "cluster c st = Some (Inr (C c, st1))" "keeps st1"
    using C assms(4) unfolding cluster_reads_def by blast
  with dir_walk [OF assms(1) C dir _ assms(5,6)] show ?thesis by blast
qed

lemma node_ok_parses:
  assumes "trees_doc T shape" and "cluster_reads cluster C ok keeps"
  shows "node_ok C ok n \<Longrightarrow> node_parses (oc, T, cluster) shape keeps n"
proof (induction n)
  case (Node f cs)
  then have cs: "length (file_name f) = 11" "\<not> directory f \<Longrightarrow> cs = []" by (simp_all split: if_splits)
  have "\<exists>es st1 t st'. cluster (get_data_addr f) st = Some (Inr (es, st1)) \<and>
      parse_entries (oc, T, cluster) (get_data_addr f) es t0 st1 = Some (Inr (t, st')) \<and> shape t = Node f cs \<and> keeps st'"
    if "directory f" "shape t0 = Node f []" "keeps st" for t0 st
    by (rule dir_parses [where keeps = keeps, OF assms _ that(3) _ that(2)]) (use Node that(1) in \<open>simp_all\<close>)
  with cs show ?case unfolding node_parses_def Node.sel snd_conv by (cases "directory f") simp_all
qed

section \<open>Mounting a volume\<close>

text \<open>A volume with boot sector \<open>b\<close> whose root directory has the nodes \<open>cs\<close>.\<close>

definition fat_volume :: "(u64 \<Rightarrow> u8 list) \<Rightarrow> FatBootSector \<Rightarrow> Node list \<Rightarrow> bool" where
  "fat_volume sec b cs \<longleftrightarrow>
     boot_sector_wf b \<and> geometry_ok b \<and> take 90 (sec 0) = boot_sector_bytes b \<and>
     dir_block (cluster_entries b sec) (cluster_ok b) (root_cluster (extended_section b)) (map data cs) \<and>
     (\<forall>n \<in> set cs. node_ok (cluster_entries b sec) (cluster_ok b) n)"

lemma read_cluster_reads:
  assumes "sector_reads read d content good" and "geometry_ok b" and "unat first_data = data_start b"
  shows "cluster_reads (read_cluster oc read d b first_data) (cluster_entries b sec) (cluster_ok b) (\<lambda>s. good s \<and> content s = sec)"
  unfolding cluster_reads_def
proof (intro conjI allI impI)
  show "2 \<le> c" if "cluster_ok b c" for c using that by (simp add: cluster_ok_def)
  show "\<exists>st'. read_cluster oc read d b first_data c st = Some (Inr (cluster_entries b sec c, st')) \<and> good st' \<and> content st' = sec"
    if "cluster_ok b c \<and> good st \<and> content st = sec" for c st
    using read_cluster_ok [OF assms, of c st oc] that by auto
qed

lemma array_chunks_first: "n \<le> length xs \<Longrightarrow> 0 < n \<Longrightarrow> array_chunks n xs = take n xs # array_chunks n (drop n xs)"
  by (subst array_chunks.simps) simp

lemma parse_long_name:
  assumes "e ! 0 \<noteq> 0" and "e ! 0 \<noteq> 0xE5" and "e ! 11 = 0x0F"
  shows "parse_entries (oc, T, cluster) c (e # rest) parent st = Some (Inl (ExplicitPanic ''detected long filename''))"
  using assms by (subst parse_entries.simps) simp

lemma fs_init_starts:
  assumes "sector_reads read d content good" and "boot_sector_wf b" and "geometry_ok b" and "take 90 (content st 0) = boot_sector_bytes b"
    and "cluster_ok b (root_cluster (extended_section b))" and "good st" and "BOOT_SECTOR cells = None"
  shows "\<exists>first_data st1. unat first_data = data_start b \<and> good st1 \<and> content st1 = content st \<and>
    fs_init oc T read (Some m) d cells st =
      bindP (parse_entries (oc, T, read_cluster oc read d b first_data) (root_cluster (extended_section b))
          (cluster_entries b (content st) (root_cluster (extended_section b))) (tree_new T file_default) st1)
        (\<lambda>(fs, st). Some (Inr (cells\<lparr>BOOT_SECTOR := Some (d, b), FILE_SYSTEM := Some fs\<rparr>, st)))"
proof -
  obtain st0 where st0: "read d 0 1 st = Some (Inr (Inr (content st 0), st0))" "good st0" "content st0 = content st"
    using assms(1) [unfolded sector_reads_def, THEN conjunct2, rule_format, of st 1 0] assms(6) by (auto simp: sector_range_def)
  have "length (content st 0) = 512" using assms(1) [unfolded sector_reads_def, THEN conjunct1] by blast
  then have c: "array_chunks 90 (content st 0) = boot_sector_bytes b # array_chunks 90 (drop 90 (content st 0))"
    using assms(4) by (simp add: array_chunks_first)
  obtain fd where fd: "first_data_sector oc b = Inr fd" "unat fd = data_start b" using first_data_sector_ok [OF assms(3)] by blast
  obtain st1 where st1: "read_cluster oc read d b fd (root_cluster (extended_section b)) st0 =
      Some (Inr (cluster_entries b (content st) (root_cluster (extended_section b)), st1))" "good st1" "content st1 = content st"
    using read_cluster_ok [OF assms(1,3) fd(2) assms(5) st0(2), of oc] st0(3) by auto
  have "fs_init oc T read (Some m) d cells st =
      bindP (parse_entries (oc, T, read_cluster oc read d b fd) (root_cluster (extended_section b))
          (cluster_entries b (content st) (root_cluster (extended_section b))) (tree_new T file_default) st1)
        (\<lambda>(fs, st). Some (Inr (cells\<lparr>BOOT_SECTOR := Some (d, b), FILE_SYSTEM := Some fs\<rparr>, st)))"
    using assms(7) by (simp add: fs_init_def parse_directory_def expect_def st0(1) c fat_boot_sector.decode_encode [OF assms(2)] fd(1) st1(1)
      bindP_simps init_once_def Let_def)
  with fd(2) st1(2,3) show ?thesis by blast
qed

lemma fs_init_ok:
  assumes T: "trees_doc T shape" and R: "sector_reads read d content good" and v: "fat_volume (content st) b cs" and "good st"
    and "BOOT_SECTOR cells = None"
  shows "\<exists>t st'. fs_init oc T read (Some m) d cells st = Some (Inr (cells\<lparr>BOOT_SECTOR := Some (d, b), FILE_SYSTEM := Some t\<rparr>, st')) \<and>
    shape t = Node file_default cs \<and> good st' \<and> content st' = content st"
proof -
  have b: "boot_sector_wf b" "geometry_ok b" "take 90 (content st 0) = boot_sector_bytes b"
    and dir: "dir_block (cluster_entries b (content st)) (cluster_ok b) (root_cluster (extended_section b)) (map data cs)"
    "\<forall>n \<in> set cs. node_ok (cluster_entries b (content st)) (cluster_ok b) n"
    using v by (simp_all add: fat_volume_def)
  obtain k where "\<forall>i \<le> k. cluster_ok b (root_cluster (extended_section b) + of_nat i)"
    using dir(1) unfolding dir_block_def by blast
  then have ok: "cluster_ok b (root_cluster (extended_section b))" by (auto dest: spec [of _ 0])
  from fs_init_starts [OF R b ok assms(4,5), of oc T m] obtain fd st1 where 1: "unat fd = data_start b" "good st1" "content st1 = content st"
    "fs_init oc T read (Some m) d cells st =
      bindP (parse_entries (oc, T, read_cluster oc read d b fd) (root_cluster (extended_section b))
          (cluster_entries b (content st) (root_cluster (extended_section b))) (tree_new T file_default) st1)
        (\<lambda>(fs, st). Some (Inr (cells\<lparr>BOOT_SECTOR := Some (d, b), FILE_SYSTEM := Some fs\<rparr>, st)))"
    by blast
  note C = read_cluster_reads [where sec = "content st", OF R b(2) 1(1), of oc]
  have n: "\<forall>n \<in> set cs. node_parses (oc, T, read_cluster oc read d b fd) shape (\<lambda>s. good s \<and> content s = content st) n"
    using node_ok_parses [OF T C] dir(2) by blast
  have "shape (tree_new T file_default) = Node file_default []" using T by (simp add: trees_doc_def)
  from dir_walk [OF T C dir(1) _ n this, of st1] 1(2,3)
  obtain t st' where "parse_entries (oc, T, read_cluster oc read d b fd) (root_cluster (extended_section b))
      (cluster_entries b (content st) (root_cluster (extended_section b))) (tree_new T file_default) st1 = Some (Inr (t, st'))"
    and t: "shape t = Node file_default cs" "good st'" "content st' = content st" by blast
  then have "fs_init oc T read (Some m) d cells st = Some (Inr (cells\<lparr>BOOT_SECTOR := Some (d, b), FILE_SYSTEM := Some t\<rparr>, st'))"
    unfolding 1(4) by (simp add: bindP_simps)
  then show ?thesis using t by blast
qed

text \<open>A long file name after \<open>es\<close> in the first cluster of the root directory.\<close>

lemma fs_init_long_name:
  assumes T: "trees_doc T shape" and R: "sector_reads read d content good"
    and b: "boot_sector_wf b" "geometry_ok b" "take 90 (content st 0) = boot_sector_bytes b" "cluster_ok b (root_cluster (extended_section b))"
    and "good st" and "BOOT_SECTOR cells = None"
    and es: "cluster_entries b (content st) (root_cluster (extended_section b)) = es @ e # rest" "\<forall>e \<in> set es. entry_ok e"
      "filter visible es = map (file_bytes \<circ> data) cs" "\<forall>n \<in> set cs. node_ok (cluster_entries b (content st)) (cluster_ok b) n"
    and e: "e ! 0 \<noteq> 0" "e ! 0 \<noteq> 0xE5" "e ! 11 = 0x0F"
  shows "fs_init oc T read (Some m) d cells st = Some (Inl (ExplicitPanic ''detected long filename''))"
proof -
  from fs_init_starts [OF R b assms(7,8), of oc T m] obtain fd st1 where 1: "unat fd = data_start b" "good st1" "content st1 = content st"
    "fs_init oc T read (Some m) d cells st =
      bindP (parse_entries (oc, T, read_cluster oc read d b fd) (root_cluster (extended_section b)) (es @ e # rest) (tree_new T file_default) st1)
        (\<lambda>(fs, st). Some (Inr (cells\<lparr>BOOT_SECTOR := Some (d, b), FILE_SYSTEM := Some fs\<rparr>, st)))"
    unfolding es(1) by blast
  have "\<forall>n \<in> set cs. node_parses (oc, T, read_cluster oc read d b fd) shape (\<lambda>s. good s \<and> content s = content st) n"
    using node_ok_parses [OF T read_cluster_reads [where sec = "content st", OF R b(2) 1(1), of oc]] es(4) by blast
  from parse_segment [where st = st1 and rest = "e # rest" and c = "root_cluster (extended_section b)" and parent = "tree_new T file_default",
      OF T _ es(2,3) this] 1(2,3)
  have "parse_entries (oc, T, read_cluster oc read d b fd) (root_cluster (extended_section b)) (es @ e # rest) (tree_new T file_default) st1 =
      Some (Inl (ExplicitPanic ''detected long filename''))"
    unfolding parse_long_name [OF e] by auto
  then show ?thesis unfolding 1(4) by (simp add: bindP_simps)
qed

section \<open>Reading a file\<close>

text \<open>The number of sectors is cut to 16 bits before it goes to the driver.\<close>

lemma get_data_sectors:
  assumes "sector_reads read d content good" and "geometry_ok b" and "cluster_ok b (get_data_addr f)" and "good st"
    and "k = (unat (fat_file_size f) div 512 + 1) mod 65536" and "0 < k" and "k \<le> 8192"
  shows "\<exists>st'. get_data oc read beyond (Some (d, b)) f st =
      Some (Inr (Inr (set_len beyond (unat (fat_file_size f)) (sector_range (content st) (of_nat (cluster_sector b (get_data_addr f))) k)), st')) \<and>
    good st' \<and> content st' = content st"
proof -
  obtain fd where fd: "first_data_sector oc b = Inr fd" "unat fd = data_start b" using first_data_sector_ok [OF assms(2)] by blast
  obtain s where s: "first_sector oc b fd (get_data_addr f) = Inr s" "unat s = cluster_sector b (get_data_addr f)"
    using first_sector_ok [OF assms(3) fd(2)] by blast
  have l: "(ucast s :: u64) = of_nat (cluster_sector b (get_data_addr f))" using s(2) by (metis of_nat_unat)
  have b: "(ucast (bytes_per_sector b) :: u32) = 512" using assms(2) by (simp add: geometry_ok_def)
  have k: "unat (fat_file_size f div 512) = unat (fat_file_size f) div 512" by (simp add: unat_div)
  have "unat (fat_file_size f) < 2 ^ LENGTH(32)" by (rule unsigned_less)
  then have k0: "unat (fat_file_size f) div 512 + 1 < 2 ^ 32" by (simp add: less_mult_imp_div_less)
  have k1: "unat (fat_file_size f div 512 + 1) = unat (fat_file_size f) div 512 + 1" using k k0 by (subst unat_add_small) simp_all
  have n: "unat (ucast (fat_file_size f div 512 + 1) :: u16) = k"
    by (simp add: assms(5) unsigned_ucast_eq unsigned_take_bit_eq take_bit_eq_mod k1 del: unat_div)
  have "unat (ucast s :: u64) < 2 ^ 48" using s(2) assms(3) by (simp add: unat_ucast_up cluster_ok_def)
  then obtain st' where st': "read d (ucast s) (ucast (fat_file_size f div 512 + 1)) st = Some (Inr (Inr (sector_range (content st) (ucast s) k), st'))"
    "good st'" "content st' = content st"
    using assms(1) [unfolded sector_reads_def, THEN conjunct2, rule_format, of st "ucast (fat_file_size f div 512 + 1)" "ucast s"] assms(4,6,7)
    by (simp only: n) auto
  have "add_ck oc (fat_file_size f div 512) 1 = Inr (fat_file_size f div 512 + 1)" using k k0 by (intro add_ck_ok) simp
  then show ?thesis
    using st' by (simp add: get_data_def expect_def fd(1) s(1) b div_ck_ok bindP_simps l)
qed

lemma get_data_ok:
  assumes "sector_reads read d content good" and "geometry_ok b" and "cluster_ok b (get_data_addr f)" and "unat (fat_file_size f) < 0x400000"
    and "good st"
  shows "\<exists>st'. get_data oc read beyond (Some (d, b)) f st =
      Some (Inr (Inr (take (unat (fat_file_size f)) (sector_range (content st) (of_nat (cluster_sector b (get_data_addr f)))
        (unat (fat_file_size f) div 512 + 1))), st')) \<and> good st' \<and> content st' = content st"
proof -
  let ?k = "unat (fat_file_size f) div 512 + 1"
  have k: "?k \<le> 8192" using assms(4) by (simp add: div_le_mono [of _ "0x3FFFFF" 512, simplified])
  then have "?k = ?k mod 65536" by simp
  from get_data_sectors [where oc = oc and beyond = beyond, OF assms(1-3,5) this _ k] show ?thesis
    using assms(1) [unfolded sector_reads_def, THEN conjunct1] by (simp add: set_len_def length_sector_range)
qed

lemma dir_names:
  assumes "dir_block C ok c (map data cs)" and "\<forall>n \<in> set cs. node_ok C ok n" and "n \<in> set cs"
  shows "get_name (data n) = Inr (file_name (data n))"
proof -
  obtain es where es: "\<forall>e \<in> set es. entry_ok e" "filter visible es = map file_bytes (map data cs)"
    using assms(1) unfolding dir_block_def by blast
  have "file_bytes (data n) \<in> set (filter visible es)" using es(2) assms(3) by simp
  then have e: "entry_ok (file_bytes (data n))" "file_bytes (data n) ! 0 \<noteq> 0xE5" using es(1) by (auto simp: visible_def)
  have l: "length (file_name (data n)) = 11" using assms(2,3) by (cases n) auto
  then have "take 11 (file_bytes (data n)) = file_name (data n)" by (simp add: file_bytes_def)
  then show ?thesis using entry_name [OF e] fat_file.decode_encode [OF l] by simp
qed

lemma find_child_ok:
  assumes "trees_doc T shape" and "find (\<lambda>n. file_name (data n) = name) (map shape ts) = Some n"
    and "\<And>n. n \<in> set (map shape ts) \<Longrightarrow> get_name (data n) = Inr (file_name (data n))"
  shows "\<exists>t. find_child T name ts = Inr (Some t) \<and> shape t = n"
  using assms(2,3)
proof (induction ts)
  case (Cons t ts)
  have "node_data T t = data (shape t)" using assms(1) by (simp add: trees_doc_def)
  then show ?case using Cons by (auto split: if_splits)
qed simp

lemma node_children:
  assumes "trees_doc T shape" and "shape t = Node f cs"
  shows "map shape (node_iter T t) = cs" and "node_data T t = f"
  using assms by (simp_all add: trees_doc_def)

lemma find_in_set: "find P xs = Some x \<Longrightarrow> x \<in> set xs"
  by (induction xs) (auto split: if_splits)

lemma get_bash_ok:
  assumes T: "trees_doc T shape" and R: "sector_reads read d content good" and v: "fat_volume (content st) b cs" and "good st"
    and t: "shape t = Node f cs" and bin: "find (\<lambda>n. file_name (data n) = BIN) cs = Some bin"
    and bash: "find (\<lambda>n. file_name (data n) = BASH) (children bin) = Some bash"
    and c: "cluster_ok b (get_data_addr (data bash))" and size: "unat (fat_file_size (data bash)) < 0x400000"
  shows "\<exists>st'. get_bash oc T read beyond (Some m) (Some (d, b)) t st =
      Some (Inr (take (unat (fat_file_size (data bash))) (sector_range (content st) (of_nat (cluster_sector b (get_data_addr (data bash))))
        (unat (fat_file_size (data bash)) div 512 + 1)), st')) \<and> good st' \<and> content st' = content st"
proof -
  let ?C = "cluster_entries b (content st)" and ?ok = "cluster_ok b"
  have vol: "geometry_ok b" "dir_block ?C ?ok (root_cluster (extended_section b)) (map data cs)" "\<forall>n \<in> set cs. node_ok ?C ?ok n"
    using v by (simp_all add: fat_volume_def)
  obtain t1 where t1: "find_child T BIN (node_iter T t) = Inr (Some t1)" "shape t1 = bin"
    using find_child_ok [OF T, of BIN "node_iter T t" bin] dir_names [OF vol(2,3)] bin node_children [OF T t] by auto
  obtain g bs where g: "bin = Node g bs" by (cases bin)
  have "node_ok ?C ?ok bin" using vol(3) find_in_set [OF bin] by blast
  moreover have "bs \<noteq> []" using bash g by auto
  ultimately have bs: "dir_block ?C ?ok (get_data_addr g) (map data bs)" "\<forall>n \<in> set bs. node_ok ?C ?ok n"
    using g by (auto split: if_splits)
  obtain t2 where t2: "find_child T BASH (node_iter T t1) = Inr (Some t2)" "shape t2 = bash"
    using find_child_ok [OF T, of BASH "node_iter T t1" bash] dir_names [OF bs] bash g node_children [OF T, of t1 g bs] t1(2) by auto
  have "node_data T t2 = data bash" using t2(2) T by (simp add: trees_doc_def)
  then show ?thesis
    using get_data_ok [OF R vol(1) c size assms(4), of oc beyond] t1(1) t2(1)
    by (auto simp: get_bash_def bindP_simps expect_def)
qed

section \<open>An example volume\<close>

text \<open>A volume with the file \<^verbatim>\<open>/BIN/BASH\<close> that holds \<open>shell\<close>: boot sector, one allocation table of one sector, the root directory
  in cluster 2, \<^verbatim>\<open>BIN\<close> in cluster 3 and the file's data in cluster 4.\<close>

definition example_boot :: FatBootSector where
  "example_boot = \<lparr>boot_jmp = [0xEB, 0x58, 0x90], oem_name = replicate 8 0x20, bytes_per_sector = 512, sectors_per_cluster = 1,
     reserved_sector_count = 1, table_count = 1, root_entry_count = 0, total_sectors_16 = 0, media_type = 0xF8, table_size_16 = 0,
     sectors_per_track = 32, head_side_count = 2, hidden_sector_count = 0, total_sectors_32 = 64,
     extended_section = \<lparr>table_size_32 = 1, extended_flags = 0, fat_version = 0, root_cluster = 2, fat_info = 1,
       backup_boot_sector = 6, ext_reserved_0 = replicate 12 0, drive_number = 0x80, ext_reserved_1 = 0, boot_signature = 0x29,
       volume_id = 0, volume_label = replicate 11 0x20, fat_type_label = replicate 8 0x20\<rparr>\<rparr>"

definition example_bash :: "u8 list \<Rightarrow> File" where
  "example_bash shell = file_default\<lparr>file_name := BASH, attributes := 0x20, cluster_l := 4, fat_file_size := of_nat (length shell)\<rparr>"

definition example_bin :: File where
  "example_bin = file_default\<lparr>file_name := BIN, attributes := 0x10, cluster_l := 3\<rparr>"

definition example_dot :: File where
  "example_dot = file_default\<lparr>file_name := dot, attributes := 0x10, cluster_l := 3\<rparr>"

definition example_long :: "u8 list" where
  "example_long = replicate 11 0x41 @ 0x0F # replicate 20 0"

definition sector_at :: "u8 list \<Rightarrow> nat \<Rightarrow> u8" where
  "sector_at s j = (if j < length s then s ! j else 0)"

definition example_root :: "u8 list \<Rightarrow> Node list" where
  "example_root shell = [Node example_bin [Node (example_bash shell) []]]"

definition example_volume :: "u8 list \<Rightarrow> u8 list \<Rightarrow> (u64 \<Rightarrow> nat \<Rightarrow> u8) disk" where
  "example_volume root shell = example_disk\<lparr>hardware := (\<lambda>l. sector_at
     (if l = 0 then boot_sector_bytes example_boot else if l = 2 then root
      else if l = 3 then file_bytes example_dot @ file_bytes (example_bash shell) else shell))\<rparr>"

definition node_trees :: "Node trees" where
  "node_trees = \<lparr>tree_new = (\<lambda>f. Node f []), push_back = (\<lambda>t c. Node (data t) (children t @ [c])),
     back_mut = (\<lambda>t. if children t = [] then None else Some (last (children t), \<lambda>c. Node (data t) (butlast (children t) @ [c]))),
     node_iter = children, node_data = data\<rparr>"

lemma node_trees_doc: "trees_doc node_trees id"
  by (simp add: trees_doc_def node_trees_def)

lemma map_sector_at: "length s \<le> 512 \<Longrightarrow> map (sector_at s) [0 ..< 512] = s @ replicate (512 - length s) 0"
  by (intro nth_equalityI) (auto simp: sector_at_def nth_append simp del: upt_rec_numeral)

lemma length_file_bytes: "length (file_name f) = 11 \<Longrightarrow> length (file_bytes f) = 32"
  by (simp add: file_bytes_def length_le_bytes)

lemma name_lengths: "length BIN = 11" "length BASH = 11" "length dot = 11" "length dot_dot = 11"
  by (simp_all add: BIN_def BASH_def dot_def dot_dot_def)

lemma example_names:
  "file_name example_bin = BIN" "file_name (example_bash shell) = BASH" "file_name example_dot = dot"
  "attributes (example_bash shell) = 0x20" "attributes example_bin = 0x10" "attributes example_dot = 0x10"
  "directory example_bin" "\<not> directory (example_bash shell)" "get_data_addr example_bin = 3" "get_data_addr (example_bash shell) = 4"
  "fat_file_size (example_bash shell) = of_nat (length shell)"
  by (simp_all add: example_bash_def example_bin_def example_dot_def file_default_def directory_def get_data_addr_def)

lemma file_bytes_parts:
  assumes "length (file_name f) = 11"
  shows "take 11 (file_bytes f) = file_name f" and "file_bytes f ! 0 = file_name f ! 0" and "file_bytes f ! 11 = attributes f"
  using assms by (simp_all add: file_bytes_def nth_append)

lemma example_lengths: "length (file_bytes (example_bash shell)) = 32" "length (file_bytes example_bin) = 32" "length (file_bytes example_dot) = 32"
  by (simp_all add: length_file_bytes example_names name_lengths)

lemma utf8_spaces: "utf8_ok (replicate n 0x20)"
  by (induction n) simp_all

lemma example_entries:
  "entry_ok (file_bytes (example_bash shell))" "entry_ok (file_bytes example_bin)" "entry_ok (file_bytes example_dot)"
  "visible (file_bytes (example_bash shell))" "visible (file_bytes example_bin)" "\<not> visible (file_bytes example_dot)"
  by (simp_all add: entry_ok_def visible_def file_bytes_parts example_names name_lengths example_lengths)
    (simp_all add: BIN_def BASH_def dot_def dot_dot_def utf8_spaces)

lemma example_geometry: "boot_sector_wf example_boot" "geometry_ok example_boot" "data_start example_boot = 2" "fat_size example_boot = 1"
  "sectors_per_cluster example_boot = 1" "root_cluster (extended_section example_boot) = 2"
  by (simp_all add: boot_sector_wf_def geometry_ok_def data_start_def fat_size_def example_boot_def)

lemma example_cluster:
  "2 \<le> c \<Longrightarrow> cluster_ok example_boot c" "2 \<le> c \<Longrightarrow> of_nat (cluster_sector example_boot c) = (ucast c :: u64)"
proof -
  assume "2 \<le> c"
  then have c: "cluster_sector example_boot c = unat c" by (simp add: cluster_sector_def example_geometry word_le_nat_alt)
  show "cluster_ok example_boot c" using unsigned_less [of c] \<open>2 \<le> c\<close> by (simp add: cluster_ok_def c)
  show "of_nat (cluster_sector example_boot c) = (ucast c :: u64)" by (simp add: c)
qed

lemma chunk_Cons: "length e = 32 \<Longrightarrow> array_chunks 32 (e @ xs) = e # array_chunks 32 xs"
  by (subst array_chunks.simps) simp

lemma chunk_zeros: "32 \<le> n \<Longrightarrow> array_chunks 32 (replicate n 0) = replicate 32 0 # array_chunks 32 (replicate (n - 32) 0)"
  by (subst array_chunks.simps) (simp add: min_def)

lemma example_sectors:
  assumes "length root \<le> 512"
  shows "take 90 (fast_sectors h p (hardware (example_volume root shell)) 0) = boot_sector_bytes example_boot"
    and "cluster_entries example_boot (fast_sectors h p (hardware (example_volume root shell))) 2 = array_chunks 32 (root @ replicate (512 - length root) 0)"
    and "cluster_entries example_boot (fast_sectors h p (hardware (example_volume root shell))) 3 =
      file_bytes example_dot # file_bytes (example_bash shell) # replicate 32 0 # array_chunks 32 (replicate 416 0)"
  using assms length_boot_sector_bytes [OF example_geometry(1)]
  by (simp_all add: fast_sectors_def example_volume_def map_sector_at cluster_entries_def sector_range_def example_cluster example_geometry
    chunk_Cons chunk_zeros example_lengths del: upt_rec_numeral)

lemma example_nodes:
  "length root \<le> 512 \<Longrightarrow> n \<in> set (example_root shell) \<Longrightarrow>
    node_ok (cluster_entries example_boot (fast_sectors h p (hardware (example_volume root shell)))) (cluster_ok example_boot) n"
  unfolding example_root_def by (auto simp: example_names name_lengths dir_block_def example_sectors clusters_from_Suc clusters_from_def example_cluster example_entries
    intro!: exI [of _ 0] exI [of _ "[file_bytes example_dot, file_bytes (example_bash shell)]"])

lemma example_fat_volume: "fat_volume (fast_sectors h p (hardware (example_volume (file_bytes example_bin) shell))) example_boot (example_root shell)"
  unfolding fat_volume_def
proof (intro conjI ballI)
  let ?v = "example_volume (file_bytes example_bin) shell"
  have l: "length (file_bytes example_bin) \<le> 512" by (simp add: example_lengths)
  show "take 90 (fast_sectors h p (hardware ?v) 0) = boot_sector_bytes example_boot" by (rule example_sectors(1) [OF l])
  show "dir_block (cluster_entries example_boot (fast_sectors h p (hardware ?v))) (cluster_ok example_boot)
      (root_cluster (extended_section example_boot)) (map data (example_root shell))"
    unfolding dir_block_def example_geometry clusters_from_Suc clusters_from_def example_sectors(2) [OF l]
    by (rule exI [of _ 0], rule exI [of _ "[file_bytes example_bin]"], rule exI [of _ "replicate 32 0"], rule exI [of _ "array_chunks 32 (replicate 448 0)"])
      (simp add: example_sectors(2) [OF l] example_cluster example_entries example_root_def chunk_Cons chunk_zeros example_lengths)
qed (simp_all add: example_geometry example_nodes example_lengths)

lemma example_volume_drive: "drive (\<lambda>_ _ _. True) 0xFEBF1000 1 1 (example_volume root shell)"
  using example_drive by (simp add: drive_def example_volume_def)

section \<open>Properties\<close>


text \<open>The shell's file. On a mounted volume with a file \<^verbatim>\<open>BASH\<close> of less than 4 MiB in a root directory \<^verbatim>\<open>BIN\<close>, \<^verbatim>\<open>get_bash\<close>
  returns exactly its size in bytes, read from consecutive sectors that start with the file's first cluster. The
  allocation table is not consulted: the clusters of the file are assumed to follow each other.\<close>

theorem get_bash_reads:
  assumes "ahci_port_doc rd wr ready sectors cap h p" and "drop_bit 8 cap AND 0xF0 \<noteq> 0" and "with_byte_count_doc with_byte_count"
    and "\<And>n st. \<exists>base. contiguous translate_addr (vec n st) base n" and "trees_doc T shape"
    and "drive ready h p d st" and "fat_volume (sectors h p (hardware st)) b cs" and "shape t = Node f cs"
    and "find (\<lambda>n. file_name (data n) = BIN) cs = Some bin" and "find (\<lambda>n. file_name (data n) = BASH) (children bin) = Some bash"
    and "cluster_ok b (get_data_addr (data bash))" and "unat (fat_file_size (data bash)) < 0x400000"
  shows "\<exists>st'. get_bash oc T (driver_read oc rd wr with_byte_count translate_addr vec) beyond (Some m) (Some (d, b)) t st =
      Some (Inr (take (unat (fat_file_size (data bash))) (sector_range (sectors h p (hardware st))
        (of_nat (cluster_sector b (get_data_addr (data bash)))) (unat (fat_file_size (data bash)) div 512 + 1)), st')) \<and>
    drive ready h p d st' \<and> sectors h p (hardware st') = sectors h p (hardware st)"
  by (rule get_bash_ok [OF assms(5) driver_provides [OF assms(1-4)] assms(7,6,8-)])

lemma sector_count_cases:
  fixes n :: nat
  assumes "k = (n div 512 + 1) mod 65536" and "0 < k" and "k \<le> 8192"
  shows "n < 0x400000 \<Longrightarrow> n < 512 * k" and "\<not> n < 0x400000 \<Longrightarrow> 0x2000000 \<le> n"
proof -
  have n: "n = 512 * (n div 512) + n mod 512" "n mod 512 < 512" by simp_all
  show "n < 512 * k" if "n < 0x400000"
  proof -
    have "n div 512 < 8192" using n that by linarith
    then have "k = n div 512 + 1" using assms(1) by simp
    then show ?thesis using n by linarith
  qed
  show "0x2000000 \<le> n" if "\<not> n < 0x400000"
  proof (rule ccontr)
    assume "\<not> 0x2000000 \<le> n"
    then have "n div 512 < 65536" "8192 \<le> n div 512" using n that by linarith+
    then have "k = n div 512 + 1 \<or> k = 0" using assms(1) by (cases "n div 512 = 65535") simp_all
    then show False using assms(2,3) \<open>8192 \<le> n div 512\<close> by linarith
  qed
qed



definition plain_read :: "(u64 \<Rightarrow> nat \<Rightarrow> u8) disk reader" where
  "plain_read = driver_read True (fast_rd 0xC0141F05) fast_wr (\<lambda>n e. Inr (e\<lparr>byte_count := n\<rparr>)) Some (\<lambda>_ _. 0x5000)"

lemmas example_device = fast_device [of "0xC0141F05" "0xFEBF1000" 1]

lemma example_byte_count: "with_byte_count_doc (\<lambda>n e. Inr (e\<lparr>byte_count := n\<rparr>))"
  by (simp add: with_byte_count_doc_def)

lemma example_slots: "drop_bit 8 (0xC0141F05 :: u32) AND 0xF0 \<noteq> 0"
  by simp

lemma example_buffer: "\<exists>base. contiguous Some 0x5000 base n"
  by (auto simp: contiguous_def)

abbreviation magic :: "u8 list" where
  "magic \<equiv> [0x7F, 0x45, 0x4C]"


theorem get_bash_reads_witness:
  "\<exists>st'. get_bash True node_trees plain_read (\<lambda>_. 0) (Some ()) (Some (1, example_boot)) (Node file_default (example_root magic))
     (example_volume (file_bytes example_bin) magic) = Some (Inr (magic, st'))"
proof -
  have s: "take 3 (sector_range (fast_sectors 0xFEBF1000 1 (hardware (example_volume (file_bytes example_bin) magic))) 4 1) = [0x7F, 0x45, 0x4C]"
    by (simp add: sector_range_def fast_sectors_def example_volume_def map_sector_at del: upt_rec_numeral)
  have "\<exists>st'. get_bash True node_trees plain_read (\<lambda>_. 0) (Some ()) (Some (1, example_boot)) (Node file_default (example_root magic))
      (example_volume (file_bytes example_bin) magic) =
    Some (Inr (take (unat (fat_file_size (data (Node (example_bash magic) [])))) (sector_range (fast_sectors 0xFEBF1000 1 (hardware (example_volume (file_bytes example_bin) magic)))
      (of_nat (cluster_sector example_boot (get_data_addr (data (Node (example_bash magic) []))))) (unat (fat_file_size (data (Node (example_bash magic) []))) div 512 + 1)), st')) \<and>
    drive (\<lambda>_ _ _. True) 0xFEBF1000 1 1 st' \<and> fast_sectors 0xFEBF1000 1 (hardware st') = fast_sectors 0xFEBF1000 1 (hardware (example_volume (file_bytes example_bin) magic))"
    unfolding plain_read_def
    by (rule get_bash_reads [where rd = "fast_rd 0xC0141F05" and wr = fast_wr and ready = "\<lambda>_ _ _. True" and sectors = fast_sectors and cap = "0xC0141F05" and
        h = "0xFEBF1000" and p = 1 and d = 1 and translate_addr = Some and vec = "\<lambda>_ _. 0x5000" and oc = True and T = node_trees and shape = id and
        m = "()" and
        st = "example_volume (file_bytes example_bin) magic", OF example_device example_slots example_byte_count example_buffer node_trees_doc example_volume_drive example_fat_volume,
        where f = file_default and bin = "Node example_bin [Node (example_bash magic) []]"])
      (simp_all add: example_root_def example_names example_cluster)
  then show ?thesis by (auto simp: example_names example_cluster s [unfolded One_nat_def])
qed



end
