(* ===== verification/Boot.thy ===== *)
theory Boot
  imports Interrupts Spawn Fs
begin

text \<open>
  \<^verbatim>\<open>lobster::init\<close> of \<^verbatim>\<open>src/lib.rs\<close> in its stages: the processor's tables, memory, devices, and the shell. Each stage composes the
  initialisations of the components in the order of the source; cells that are filled once are the arguments
  and results.
\<close>

text \<open>\<^verbatim>\<open>PICS.initialize()\<close> is the crate's; \<^verbatim>\<open>interrupts::enable\<close> sets the interrupt flag.\<close>

definition init_cpu ::
  "'g \<times> Selectors \<Rightarrow> u64 \<Rightarrow> ('f irq \<Rightarrow> 'f irq) \<Rightarrow> 'g segments \<Rightarrow> cpu \<Rightarrow> 'f irq \<Rightarrow> 'g segments \<times> cpu \<times> 'f irq" where
  "init_cpu gdt handler_addr pics_initialize segs c st =
     (let segs = gdt_init gdt segs;
          c = syscall_init handler_addr c;
          st = pics_initialize (init_idt st)
      in (segs, c\<lparr>rflags := rflags c OR IF_bit\<rparr>, st))"

text \<open>\<open>view\<close> is the page table the new mapper works on.\<close>

definition init_memory ::
  "bool \<Rightarrow> (u64 \<Rightarrow> 'f) \<Rightarrow> (u64 \<Rightarrow> u64 \<Rightarrow> u64 list) \<Rightarrow> ('f, 'm, linear_frame_allocator) map_to_fn \<Rightarrow> ('h \<Rightarrow> u64 \<Rightarrow> usize \<Rightarrow> 'h) \<Rightarrow>
   (offset_page_table \<Rightarrow> 'm) \<Rightarrow> u64 \<Rightarrow> u64 option \<Rightarrow> memory_region list \<Rightarrow> 'h fixed_block_alloc \<Rightarrow>
   (offset_page_table \<times> 'm \<times> 'h fixed_block_alloc \<times> 'f buddy_allocator) rust" where
  "init_memory oc frame_of page_range map_to heap_init view cr3_frame boot_offset memory_map al =
     bindE (memory_init oc cr3_frame boot_offset) (\<lambda>mapper.
     let simple_allocator = lfa_init memory_map in
     bindE (init_heap page_range (lfa_allocate_frame oc frame_of) map_to heap_init (view mapper) simple_allocator al) (\<lambda>(r, m, simple_allocator, al).
     case r of
       Inl e \<Rightarrow> Inl (UnwrapFailed ''Failed to initialize heap'')
     | Inr _ \<Rightarrow> Inr (mapper, m, al, ba_init frame_of memory_map (get_used simple_allocator))))"

text \<open>\<^verbatim>\<open>pci::DEVICES\<close> holds references; the disk driver reads the configuration spaces through them.\<close>

definition init_devices ::
  "bool \<Rightarrow> 'd rd \<Rightarrow> 'd wr \<Rightarrow> (nat \<Rightarrow> nat \<Rightarrow> 'd disk \<Rightarrow> u64 \<times> 'd disk) \<Rightarrow> (nat \<Rightarrow> nat \<Rightarrow> 'd disk \<Rightarrow> u64 \<times> 'd disk) \<Rightarrow>
   (nat \<Rightarrow> HBACommandHeader) \<Rightarrow> (u64 \<Rightarrow> u64 option) \<Rightarrow> (u64 \<Rightarrow> u8) \<Rightarrow> u64 \<Rightarrow> acpi \<Rightarrow> pci \<Rightarrow> 'd disk \<Rightarrow> (acpi \<times> pci \<times> 'd disk) outcome" where
  "init_devices oc rd wr alloc_mem alloc_zeroed uninit translate_addr m physical_memory_offset a p st =
     bindP (Some (acpi_init oc m physical_memory_offset a)) (\<lambda>a.
     bindP (Some (pci_init oc m (RSDT_cell a) physical_memory_offset p)) (\<lambda>p.
     bindP (disk_init oc rd wr alloc_mem alloc_zeroed uninit (Some (physical_memory_offset, translate_addr)) (map_option (map (config_space_at m)) (DEVICES p)) st) (\<lambda>st.
     Some (Inr (a, p, st)))))"

text \<open>From \<^verbatim>\<open>fs::init(1)\<close> to \<^verbatim>\<open>scheduler.enable()\<close>. \<open>after_file\<close> and \<open>after_vec\<close> are the bytes past the file and past the sectors read.\<close>

definition start_shell ::
  "bool \<Rightarrow> 't trees \<Rightarrow> 's reader \<Rightarrow> ('e, 'f, 'm, 'f buddy_allocator) x86_crate \<Rightarrow> (nat \<Rightarrow> u8) \<Rightarrow> (nat \<Rightarrow> u8) \<Rightarrow> offset_page_table option \<Rightarrow> u64 \<Rightarrow>
   't fs_cells \<Rightarrow> 's \<Rightarrow> ('e, 'f buddy_allocator) spawn_machine \<Rightarrow> 'f Scheduler \<Rightarrow>
   ('t fs_cells \<times> 's \<times> 'm \<times> ('e, 'f buddy_allocator) spawn_machine \<times> 'f Scheduler) outcome" where
  "start_shell oc T read x after_vec after_file MAPPER table_box fsc st k sch =
     bindP (fs_init oc T read MAPPER 1 fsc st) (\<lambda>(fsc, st).
     bindP (Some (expect ''file system not initialized'' (FILE_SYSTEM fsc))) (\<lambda>fs.
     bindP (get_bash oc T read after_vec MAPPER (BOOT_SECTOR fsc) fs st) (\<lambda>(shell, st).
     bindP (Some (spawn_from_file x oc ba_allocate_frame MAPPER table_box after_file shell k)) (\<lambda>(r, m, k).
     case r of
       Inl e \<Rightarrow> Some (Inl (UnwrapFailed ''called `Result::unwrap()` on an `Err` value''))
     | Inr p \<Rightarrow>
         bindP (Some (push_task oc p sch)) (\<lambda>(_, sch).
         Some (Inr (fsc, st, m, k, enable sch)))))))"

section \<open>The first task\<close>

definition first_task :: "'f Process \<Rightarrow> 'f Scheduler" where
  "first_task p = \<lparr>tasks = [\<lparr>state = READY, process = p, pid = 1\<rparr>], current_task_ticks = 0, next_task_id = 2, current_task = usize_MAX - 1, is_enabled = True\<rparr>"

lemma push_first: "push_task oc p SCHEDULER = Inr (1, (first_task p)\<lparr>is_enabled := False\<rparr>)"
  by (simp add: push_task_def SCHEDULER_def first_task_def add_ck_def Let_def)

lemma enable_first: "enable ((first_task p)\<lparr>is_enabled := False\<rparr>) = first_task p"
  by (simp add: enable_def first_task_def)

lemma first_task_process: "map process (tasks (first_task p)) = [p]"
  by (simp add: first_task_def)

lemma first_ticks: "length cs = 19 \<Longrightarrow> run_ticks oc cs (first_task p) = Some (Inr ((first_task p)\<lparr>current_task_ticks := 19\<rparr>))"
  using ticks_count [of "first_task p" cs oc] by (simp add: first_task_def)

lemma first_switch:
  "\<exists>s. tick oc c ((first_task p)\<lparr>current_task_ticks := 19\<rparr>) = Some (Inr (Run p, s)) \<and> map state (tasks s) = [RUNNING]"
proof -
  let ?t = "\<lparr>state = READY, process = p, pid = 1\<rparr>"
  let ?s = "\<lparr>tasks = [?t], current_task_ticks = 0, next_task_id = 2, current_task = usize_MAX - 1, is_enabled = True\<rparr>"
  have "get_next_task oc ?s = Some (Inr (0, ?s\<lparr>current_task := 0\<rparr>))"
    unfolding get_next_task_def by (subst next_task_loop.simps) (simp add: add_ck_def get_opt_def unat_usize_MAX)
  then show ?thesis
    by (simp add: first_task_def tick_def add_ck_def QUANTUM_def update_current_def swap_tasks_def switch_to_next_def get_opt_def)
qed

lemma timer_starts_first:
  assumes "sched st = first_task p" and "\<not> sched_locked st" and "length cpus = 19"
  shows "\<exists>st1 st2. timer_interrupts oc cpus st = Some (Inr st1) \<and> timer_interrupt_handler oc c st1 = Some (Inr (Run p, st2)) \<and>
    ended st2 = ended st @ replicate 20 (as_u8 Timer)"
proof -
  let ?s = "(first_task p)\<lparr>current_task_ticks := 19\<rparr>"
  let ?st = "st\<lparr>ended := ended st @ replicate 19 (as_u8 Timer), sched := ?s\<rparr>"
  have "timer_interrupts oc cpus st = Some (Inr ?st)"
    using timer_interrupts_ticks [OF assms(2), of oc cpus ?s] first_ticks [OF assms(3), of oc p] assms(1,3) by simp
  moreover obtain s where "tick oc c ?s = Some (Inr (Run p, s))" using first_switch by blast
  then have "timer_interrupt_handler oc c ?st = Some (Inr (Run p, ?st\<lparr>ended := ended ?st @ [as_u8 Timer], sched := s\<rparr>))"
    using assms(2) by (simp add: timer_interrupt_handler_def)
  moreover have "replicate 19 (as_u8 Timer) @ [as_u8 Timer] = replicate 20 (as_u8 Timer)" by (simp add: replicate_append_same flip: replicate_Suc)
  ultimately show ?thesis by auto
qed

lemma activate_first:
  assumes "process_state p = None"
  shows "rip (activate call containing_address (user_cs, user_ds) p c) = entry_offset p"
    and "regs (activate call containing_address (user_cs, user_ds) p c) RSP = 0x810000"
    and "seg_cs (activate call containing_address (user_cs, user_ds) p c) = user_cs"
    and "seg_ss (activate call containing_address (user_cs, user_ds) p c) = user_ds"
    and "fst (cr3 (activate call containing_address (user_cs, user_ds) p c)) = containing_address (page_table_addr p)"
  using assms by (simp_all add: activate_def switch_to_usermode_def usermode_code_def load_page_table_def machine_simps USERSPACE_STACK_def)

section \<open>Heap and buddy allocator\<close>

lemma map_heap_pages_append:
  "map_heap_pages alloc_frame map_to fl (ps @ qs) m s =
     bindE (map_heap_pages alloc_frame map_to fl ps m s) (\<lambda>(r, m, s).
     case r of Inl e \<Rightarrow> Inr (Inl e, m, s) | Inr _ \<Rightarrow> map_heap_pages alloc_frame map_to fl qs m s)"
  by (induction ps arbitrary: m s) (auto simp: bindE_def split: sum.splits option.splits prod.splits)

text \<open>\<^verbatim>\<open>map_to\<close> reaches the allocator only through \<^verbatim>\<open>allocate_frame\<close>.\<close>

definition map_to_allocates :: "('f, 'm, 's) map_to_fn \<Rightarrow> ('s \<Rightarrow> ('f option \<times> 's) rust) \<Rightarrow> bool" where
  "map_to_allocates map_to alloc_frame \<longleftrightarrow>
     (\<forall>page f fl m s r m' s'. map_to page f fl m s = Inr (r, m', s') \<longrightarrow> (\<exists>k fs. alloc_seq alloc_frame k s = Inr (fs, s')))"

lemma lfa_allocate_frame_map:
  assumes "lfa_allocate_frame oc frame_of s = Inr (r, s')"
  shows "lfa_memory_map s' = lfa_memory_map s" and "r = get_opt (usable_frames frame_of (lfa_memory_map s)) (unat (lfa_next s'))"
  using assms by (auto simp: lfa_allocate_frame_def elim!: bindE_InrE)

lemma alloc_seq_map: "alloc_seq (lfa_allocate_frame oc frame_of) k s = Inr (fs, s') \<Longrightarrow> lfa_memory_map s' = lfa_memory_map s"
  by (induction k arbitrary: s fs) (auto elim!: bindE_InrE dest: lfa_allocate_frame_map(1))

lemma map_heap_pages_map:
  assumes "map_to_allocates map_to (lfa_allocate_frame oc frame_of)"
  shows "map_heap_pages (lfa_allocate_frame oc frame_of) map_to fl ps m s = Inr (r, m', s') \<Longrightarrow> lfa_memory_map s' = lfa_memory_map s"
proof (induction ps arbitrary: m s)
  case (Cons p ps)
  then obtain rf s1 where a: "lfa_allocate_frame oc frame_of s = Inr (rf, s1)" by (auto elim!: bindE_InrE)
  show ?case
  proof (cases rf)
    case None
    then show ?thesis using Cons.prems a lfa_allocate_frame_map(1) [OF a] by simp
  next
    case (Some f)
    with Cons.prems a obtain e m2 s2 where mt: "map_to p f fl m s1 = Inr (e, m2, s2)" by (auto elim!: bindE_InrE)
    obtain k fs where "alloc_seq (lfa_allocate_frame oc frame_of) k s1 = Inr (fs, s2)"
      using assms mt unfolding map_to_allocates_def by blast
    then have "lfa_memory_map s2 = lfa_memory_map s" using alloc_seq_map lfa_allocate_frame_map(1) [OF a] by metis
    then show ?thesis using Cons Some a mt by (cases e) auto
  qed
qed simp

lemma heap_pages_last: "page_range_doc page_range \<Longrightarrow> \<exists>ps. heap_pages page_range = ps @ [0x44444453F000]"
proof -
  assume "page_range_doc page_range"
  then have "heap_pages page_range = map (\<lambda>i. of_nat (4096 * i)) ([0x444444440 ..< 0x44444453F] @ [0x44444453F])"
    by (subst heap_pages_eq) (simp_all del: upt_rec_numeral flip: upt_Suc_append)
  then show ?thesis by (simp del: upt_rec_numeral)
qed

lemma last_page_frame:
  assumes mt: "map_to_contract map_to lookup (lfa_free frame_of) (lfa_inv frame_of)" "map_to_allocates map_to (lfa_allocate_frame oc frame_of)"
    and last: "\<forall>f m s r m' s'. map_to p f fl m s = Inr (r, m', s') \<longrightarrow> s' = s" and "lfa_inv frame_of s"
    and run: "map_heap_pages (lfa_allocate_frame oc frame_of) map_to fl (ps @ [p]) m s = Inr (Inr (), m', s')"
  shows "\<exists>f. lookup m' p = Some (f, fl) \<and> get_opt (usable_frames frame_of (lfa_memory_map s)) (unat (lfa_next s')) = Some f"
proof -
  from run obtain m1 s1 where 1: "map_heap_pages (lfa_allocate_frame oc frame_of) map_to fl ps m s = Inr (Inr (), m1, s1)"
    and rest: "map_heap_pages (lfa_allocate_frame oc frame_of) map_to fl [p] m1 s1 = Inr (Inr (), m', s')"
    unfolding map_heap_pages_append by (auto elim!: bindE_InrE split: sum.splits)
  from rest obtain f s2 where a: "lfa_allocate_frame oc frame_of s1 = Inr (Some f, s2)" and m: "map_to p f fl m1 s2 = Inr (Inr (), m', s')"
    by (auto elim!: bindE_InrE split: option.splits sum.splits)
  have "lfa_inv frame_of s1" using linear.map_heap_pages_frames [OF mt(1) assms(4) 1] by blast
  then have "lfa_inv frame_of s2" using linear.alloc_some_iff [OF _ a] by blast
  then have "lookup m' p = Some (f, fl)" using map_to_contractD(2) [OF mt(1) _ m] by simp
  moreover have "s' = s2" using last m by blast
  moreover have "Some f = get_opt (usable_frames frame_of (lfa_memory_map s)) (unat (lfa_next s2))"
    using lfa_allocate_frame_map(2) [OF a] map_heap_pages_map [OF mt(2) 1] by simp
  ultimately show ?thesis by auto
qed

end
