(* ===== verification/Keyboard_Task.thy ===== *)
theory Keyboard_Task
  imports Async_Tasks
begin

text \<open>
  \<^verbatim>\<open>print_keypresses\<close> of \<^verbatim>\<open>src/task/keyboard.rs\<close>: the task that decodes scancodes and prints them. The compiled future is a
  value that has not started or is suspended with its local \<^verbatim>\<open>keyboard\<close>; a poll runs it to the next
  \<^verbatim>\<open>await\<close> that is pending.
\<close>

section \<open>The task\<close>

text \<open>What the source uses of the crate \<^verbatim>\<open>pc_keyboard\<close>: in \<open>add_byte\<close> the outer \<open>None\<close> is \<^verbatim>\<open>Err\<close>; \<open>key_debug\<close> is the text of a raw key.\<close>

datatype 'c DecodedKey = Unicode nat | RawKey 'c

record ('k, 'ev, 'c) pc_keyboard =
  pk_new :: 'k
  add_byte :: "u8 \<Rightarrow> 'k \<Rightarrow> 'ev option option \<times> 'k"
  process_keyevent :: "'ev \<Rightarrow> 'k \<Rightarrow> 'c DecodedKey option \<times> 'k"
  key_debug :: "'c \<Rightarrow> u8 list"

definition print_scancode :: "('k, 'ev, 'c) pc_keyboard \<Rightarrow> u8 \<Rightarrow> 'k \<times> writer \<Rightarrow> ('k \<times> writer) rust" where
  "print_scancode P scancode s =
     (case s of (keyboard, scr) \<Rightarrow>
      case add_byte P scancode keyboard of
        (Some (Some key_event), keyboard) \<Rightarrow>
          (case process_keyevent P key_event keyboard of
             (Some key, keyboard) \<Rightarrow>
               (case key of
                  Unicode char \<Rightarrow> bindE (vga_print [encode_utf8 char] scr) (\<lambda>scr. Inr (keyboard, scr))
                | RawKey key \<Rightarrow> bindE (vga_print [key_debug P key] scr) (\<lambda>scr. Inr (keyboard, scr)))
           | (None, keyboard) \<Rightarrow> Inr (keyboard, scr))
      | (_, keyboard) \<Rightarrow> Inr (keyboard, scr))"

text \<open>The loop; the \<^verbatim>\<open>await\<close> polls the stream.\<close>

partial_function (option) print_loop ::
  "('s, u8) array_queue \<Rightarrow> ('w, TaskWaker) atomic_waker \<Rightarrow> ('k, 'ev, 'c) pc_keyboard \<Rightarrow> TaskWaker \<Rightarrow> ('s, 'w) keyboard \<Rightarrow> 'k \<times> writer \<Rightarrow>
   (unit Poll \<times> ('s, 'w) keyboard \<times> 'k \<times> writer) outcome" where
  "print_loop S W P waker kb s =
     bindP (Some (poll_next S W waker kb)) (\<lambda>(r, kb).
     case r of
       Pending \<Rightarrow> Some (Inr (Pending, kb, s))
     | Ready None \<Rightarrow> Some (Inr (Ready (), kb, s))
     | Ready (Some scancode) \<Rightarrow>
         bindP (Some (print_scancode P scancode s)) (\<lambda>s. print_loop S W P waker kb s))"

datatype 'k keypresses = Unresumed | Suspended 'k

definition print_keypresses ::
  "('s, u8) array_queue \<Rightarrow> ('w, TaskWaker) atomic_waker \<Rightarrow> ('k, 'ev, 'c) pc_keyboard \<Rightarrow> TaskWaker \<Rightarrow> 'k keypresses \<Rightarrow> ('s, 'w) keyboard \<Rightarrow> writer \<Rightarrow>
   (unit Poll \<times> ('s, 'w) keyboard \<times> 'k \<times> writer) outcome" where
  "print_keypresses S W P waker fut kb scr =
     (case fut of
        Unresumed \<Rightarrow> bindP (Some (ScancodeStream_new S kb)) (\<lambda>kb. print_loop S W P waker kb (pk_new P, scr))
      | Suspended keyboard \<Rightarrow> print_loop S W P waker kb (keyboard, scr))"

section \<open>What a poll prints\<close>

text \<open>The reference: the texts of the keys that a sequence of scancodes means to the crate's decoder.\<close>

definition decode :: "('k, 'ev, 'c) pc_keyboard \<Rightarrow> u8 \<Rightarrow> 'k \<Rightarrow> u8 list \<times> 'k" where
  "decode P scancode keyboard =
     (case add_byte P scancode keyboard of
        (Some (Some ev), keyboard) \<Rightarrow>
          (case process_keyevent P ev keyboard of
             (key, keyboard) \<Rightarrow> (case key of None \<Rightarrow> [] | Some (Unicode char) \<Rightarrow> encode_utf8 char | Some (RawKey key) \<Rightarrow> key_debug P key, keyboard))
      | (_, keyboard) \<Rightarrow> ([], keyboard))"

fun decode_all :: "('k, 'ev, 'c) pc_keyboard \<Rightarrow> u8 list \<Rightarrow> 'k \<Rightarrow> u8 list \<times> 'k" where
  "decode_all P [] keyboard = ([], keyboard)"
| "decode_all P (c # cs) keyboard =
     (let (text, keyboard) = decode P c keyboard; (texts, keyboard) = decode_all P cs keyboard in (text @ texts, keyboard))"

lemma print_scancode_eq:
  "print_scancode P c (keyboard, scr) = bindE (vga_print [fst (decode P c keyboard)] scr) (\<lambda>scr. Inr (snd (decode P c keyboard), scr))"
proof -
  have "vga_print [[]] scr = Inr scr" by (simp add: vga_print_def write_str_def write_string_def)
  then show ?thesis by (simp add: print_scancode_def decode_def split: prod.split option.split DecodedKey.split)
qed

lemma print_scancode_shows:
  assumes "shows_text scr t"
  shows "\<exists>scr'. print_scancode P c (keyboard, scr) = Inr (snd (decode P c keyboard), scr') \<and>
    shows_text scr' (fst t, term_string (fst t) (snd t) (fst (decode P c keyboard)))"
  using vga.print_then [OF assms, of "[fst (decode P c keyboard)]"] by (auto simp: print_scancode_eq)

text \<open>The steps of the loop.\<close>

lemma print_loop_empty:
  assumes "array_queue_doc S items room" and "SCANCODE_QUEUE kb = Some queue" and "items queue = []"
  shows "\<exists>queue'. print_loop S W P waker kb s =
      Some (Inr (Pending, kb\<lparr>SCANCODE_QUEUE := Some queue', WAKER := aw_register W waker (WAKER kb)\<rparr>, s)) \<and> items queue' = []"
proof -
  obtain q1 where q1: "aq_pop S queue = (None, q1)" "items q1 = []" using aq_pop_eq [OF assms(1), of queue] assms(3) by auto
  obtain q2 where q2: "aq_pop S q1 = (None, q2)" "items q2 = []" using aq_pop_eq [OF assms(1), of q1] q1(2) by auto
  have "poll_next S W waker kb = Inr (Pending, kb\<lparr>SCANCODE_QUEUE := Some q2, WAKER := aw_register W waker (WAKER kb)\<rparr>)"
    using q1 q2 assms(2) by (simp add: poll_next_def Let_def)
  then show ?thesis using q2(2) by (subst print_loop.simps) auto
qed

lemma print_loop_step:
  assumes "array_queue_doc S items room" and "SCANCODE_QUEUE kb = Some queue" and "items queue = c # cs" and "print_scancode P c s = Inr s'"
  shows "\<exists>queue'. print_loop S W P waker kb s = print_loop S W P waker (kb\<lparr>SCANCODE_QUEUE := Some queue'\<rparr>) s' \<and> items queue' = cs"
proof -
  obtain q1 where q1: "aq_pop S queue = (Some c, q1)" "items q1 = cs" using aq_pop_eq [OF assms(1), of queue] assms(3) by auto
  have "poll_next S W waker kb = Inr (Ready (Some c), kb\<lparr>SCANCODE_QUEUE := Some q1\<rparr>)"
    using q1 assms(2) by (simp add: poll_next_def Let_def)
  then show ?thesis using q1(2) assms(4) by (subst print_loop.simps) auto
qed

lemma print_loop_drains:
  assumes S: "array_queue_doc S items room" and W: "atomic_waker_doc W registered"
    and "SCANCODE_QUEUE kb = Some queue" and "shows_text scr t"
  shows "\<exists>kb' queue' scr'. print_loop S W P waker kb (keyboard, scr) = Some (Inr (Pending, kb', snd (decode_all P (items queue) keyboard), scr')) \<and>
    SCANCODE_QUEUE kb' = Some queue' \<and> items queue' = [] \<and> registered (WAKER kb') = Some waker \<and>
    shows_text scr' (fst t, term_string (fst t) (snd t) (fst (decode_all P (items queue) keyboard)))"
  using assms(3-)
proof (induction "items queue" arbitrary: kb queue keyboard scr t)
  case Nil
  have r: "registered (aw_register W waker w) = Some waker" for w using W by (simp add: atomic_waker_doc_def)
  have e: "items queue = []" using Nil(1) by simp
  show ?case using print_loop_empty [OF S Nil(2) e, of W P waker "(keyboard, scr)"] r Nil(3) vga.extend_Nil [of t] by (auto simp: e)
next
  case (Cons c cs)
  have e: "items queue = c # cs" using Cons.hyps(2) by simp
  obtain scr1 where s1: "print_scancode P c (keyboard, scr) = Inr (snd (decode P c keyboard), scr1)"
    "shows_text scr1 (fst t, term_string (fst t) (snd t) (fst (decode P c keyboard)))"
    using print_scancode_shows [OF Cons.prems(2), of P c keyboard] by blast
  obtain q1 where q1: "print_loop S W P waker kb (keyboard, scr) = print_loop S W P waker (kb\<lparr>SCANCODE_QUEUE := Some q1\<rparr>) (snd (decode P c keyboard), scr1)"
    "items q1 = cs" using print_loop_step [OF S Cons.prems(1) e s1(1), of W waker] by blast
  from Cons.hyps(1) [of q1 "kb\<lparr>SCANCODE_QUEUE := Some q1\<rparr>", OF q1(2) [symmetric] _ s1(2), of "snd (decode P c keyboard)"]
  show ?case unfolding q1(1) q1(2) e by (simp add: vga.extend_append split_beta term_string_append)
qed

text \<open>C17: A poll of the keyboard task. When the scancodes waiting in the queue are \<open>cs\<close> and the decoder is in some state, the poll
  returns \<^verbatim>\<open>Pending\<close> with the queue empty and the task's waker registered, and the screen shows the text of the
  keys that the decoder finds in \<open>cs\<close>, in order, after what it showed before.\<close>

theorem print_keypresses_prints:
  assumes "array_queue_doc S items room" and "atomic_waker_doc W registered"
    and "SCANCODE_QUEUE kb = Some queue" and "displays scr hist" and "length (last hist) < 80"
  shows "\<exists>kb' queue' scr'. print_keypresses S W P waker (Suspended keyboard) kb scr =
      Some (Inr (Pending, kb', snd (decode_all P (items queue) keyboard), scr')) \<and>
    SCANCODE_QUEUE kb' = Some queue' \<and> items queue' = [] \<and> registered (WAKER kb') = Some waker \<and>
    displays scr' (term_string (default_color scr) hist (fst (decode_all P (items queue) keyboard)))"
proof -
  have "shows_text scr (default_color scr, hist)" using assms(4,5) by (simp add: shows_text_def)
  from print_loop_drains [OF assms(1-3) this, of P waker keyboard] show ?thesis
    unfolding print_keypresses_def keypresses.case shows_text_def fst_conv snd_conv by blast
qed

definition example_keyboard :: "(unit, u8, u8) pc_keyboard" where
  "example_keyboard = \<lparr>pk_new = (), add_byte = (\<lambda>c _. (if c = 0xE0 then None else if c < 0x80 then Some (Some c) else Some None, ())),
     process_keyevent = (\<lambda>c _. (if c = 0x1E then Some (Unicode 97) else Some (RawKey c), ())), key_debug = (\<lambda>_. [0x46])\<rparr>"

theorem print_keypresses_prints_witness:
  "\<exists>kb' scr'. print_keypresses list_queue (c_waker list_crates) example_keyboard (TaskWaker 5) (Suspended ())
      \<lparr>SCANCODE_QUEUE = Some (100, [0x1E, 0xE0, 0x9E, 0x3B]), WAKER = None\<rparr> (writer_new (replicate 25 (replicate 80 \<lparr>get_char = 0, get_color = 0\<rparr>))) =
      Some (Inr (Pending, kb', (), scr')) \<and> WAKER kb' = Some (TaskWaker 5) \<and>
    displays scr' [[\<lparr>get_char = 0x61, get_color = 15\<rparr>, \<lparr>get_char = 0x46, get_color = 15\<rparr>]]"
proof -
  have "displays (writer_new (replicate 25 (replicate 80 \<lparr>get_char = 0, get_color = 0\<rparr>))) [[]]" by (simp add: writer_new_displays screen_dims_def)
  from print_keypresses_prints [where P = example_keyboard and waker = "TaskWaker 5" and keyboard = "()" and
      kb = "\<lparr>SCANCODE_QUEUE = Some (100, [0x1E, 0xE0, 0x9E, 0x3B]), WAKER = None\<rparr>", OF list_queue_doc list_waker_doc _ this]
  show ?thesis
    by (auto simp: example_keyboard_def decode_def encode_utf8_def writer_new_def term_string_def term_byte_def sanitize_def printable_def color_code_new_def)
qed

end
