(* ===== verification/Disk_Init.thy ===== *)
theory Disk_Init
  imports Disk
begin

text \<open>
  What \<^verbatim>\<open>disk::init\<close> of \<^verbatim>\<open>src/disk.rs\<close> leaves behind: one port structure for every connected port of every AHCI controller, in the
  shape that the transfers rely on.
\<close>

section \<open>Controllers at rest\<close>

text \<open>
  The AHCI specification on starting a port: \<open>impl h\<close> and \<open>status h i\<close> are the ports implemented by a controller and
  the link status of a port, which initialisation does not change. Once software clears the start and FIS receive bits, the port
  reports after some polls that it is stopped, and it stays so while its base addresses are written.
\<close>

fun settles :: "'d rd \<Rightarrow> (u64 \<Rightarrow> nat \<Rightarrow> 'd \<Rightarrow> bool) \<Rightarrow> u64 \<Rightarrow> nat \<Rightarrow> nat \<Rightarrow> 'd disk \<Rightarrow> bool" where
  "settles rd stopped h i 0 st =
     (case rd h i CommandStatus st of (v, st) \<Rightarrow> v AND 0x4000 = 0 \<and> v AND 0x8000 = 0 \<and> stopped h i (hardware st))"
| "settles rd stopped h i (Suc k) st =
     (case rd h i CommandStatus st of (v, st) \<Rightarrow> \<not> (v AND 0x4000 = 0 \<and> v AND 0x8000 = 0) \<and> settles rd stopped h i k st)"

definition ahci_init_doc ::
  "'d rd \<Rightarrow> 'd wr \<Rightarrow> (u64 \<Rightarrow> u32) \<Rightarrow> (u64 \<Rightarrow> nat \<Rightarrow> u32) \<Rightarrow> (u64 \<Rightarrow> nat \<Rightarrow> 'd \<Rightarrow> bool) \<Rightarrow> bool" where
  "ahci_init_doc rd wr impl status stopped \<longleftrightarrow>
     (\<forall>h i reg st. \<exists>v hw. rd h i reg st = (v, st\<lparr>hardware := hw\<rparr>) \<and>
        (reg = PortImplemented \<longrightarrow> v = impl h) \<and> (reg = SataStatus \<longrightarrow> v = status h i) \<and>
        (stopped h i (hardware st) \<longrightarrow> stopped h i hw \<and> (reg = CommandStatus \<longrightarrow> v AND 0x8000 = 0))) \<and>
     (\<forall>h i reg v st. reg \<in> {ClBase, ClBaseUpper, FisBase, FisBaseUpper} \<longrightarrow>
        (\<exists>hw. wr h i reg v st = st\<lparr>hardware := hw\<rparr> \<and> (stopped h i (hardware st) \<longrightarrow> stopped h i hw))) \<and>
     (\<forall>h i v st. v AND 0x11 = 0 \<longrightarrow> (\<exists>k. settles rd stopped h i k (wr h i CommandStatus v st)))"

text \<open>The heap: memory that is mapped, and no effect on the devices.\<close>

definition alloc_doc :: "(nat \<Rightarrow> nat \<Rightarrow> 'd disk \<Rightarrow> u64 \<times> 'd disk) \<Rightarrow> (u64 \<Rightarrow> u64 option) \<Rightarrow> bool" where
  "alloc_doc alloc translate_addr \<longleftrightarrow>
     (\<forall>n a st. \<exists>addr phys st'. alloc n a st = (addr, st') \<and> translate_addr addr = Some phys \<and> hardware st' = hardware st)"

definition connected :: "(u64 \<Rightarrow> u32) \<Rightarrow> (u64 \<Rightarrow> nat \<Rightarrow> u32) \<Rightarrow> u64 \<Rightarrow> nat \<Rightarrow> bool" where
  "connected impl status h i \<longleftrightarrow> bit (impl h) i \<and> status h i AND 0x101 = 0x101"

definition hba_of :: "u64 \<Rightarrow> DeviceConfigurationSpace \<Rightarrow> u64" where
  "hba_of phys_off controller = ucast (get_bars controller ! 5) + phys_off"

section \<open>One port\<close>

lemma wait_settles:
  assumes "settles rd stopped h i k st"
  shows "\<exists>st'. wait_until rd h i CommandStatus (\<lambda>v. v AND 0x4000 = 0 \<and> v AND 0x8000 = 0) st = Some st' \<and> stopped h i (hardware st')"
  using assms
proof (induction k arbitrary: st)
  case 0
  then show ?case by (subst wait_until.simps) (auto split: prod.splits)
next
  case (Suc k)
  then obtain v st1 where 1: "rd h i CommandStatus st = (v, st1)" "\<not> (v AND 0x4000 = 0 \<and> v AND 0x8000 = 0)" "settles rd stopped h i k st1"
    by (auto split: prod.splits)
  then show ?case using Suc.IH [OF 1(3)] by (subst wait_until.simps) auto
qed

lemma init_docD:
  assumes "ahci_init_doc rd wr impl status stopped"
  shows "\<exists>v hw. rd h i reg st = (v, st\<lparr>hardware := hw\<rparr>) \<and> (reg = PortImplemented \<longrightarrow> v = impl h) \<and> (reg = SataStatus \<longrightarrow> v = status h i) \<and>
      (stopped h i (hardware st) \<longrightarrow> stopped h i hw \<and> (reg = CommandStatus \<longrightarrow> v AND 0x8000 = 0))"
    and "reg \<in> {ClBase, ClBaseUpper, FisBase, FisBaseUpper} \<Longrightarrow> stopped h i (hardware st) \<Longrightarrow> stopped h i (hardware (wr h i reg v st))"
    and "v AND 0x11 = 0 \<Longrightarrow> \<exists>k. settles rd stopped h i k (wr h i CommandStatus v st)"
proof -
  note d = assms [unfolded ahci_init_doc_def]
  show "\<exists>v hw. rd h i reg st = (v, st\<lparr>hardware := hw\<rparr>) \<and> (reg = PortImplemented \<longrightarrow> v = impl h) \<and> (reg = SataStatus \<longrightarrow> v = status h i) \<and>
      (stopped h i (hardware st) \<longrightarrow> stopped h i hw \<and> (reg = CommandStatus \<longrightarrow> v AND 0x8000 = 0))"
    by (rule d [THEN conjunct1, rule_format])
  show "stopped h i (hardware (wr h i reg v st))"
    if "reg \<in> {ClBase, ClBaseUpper, FisBase, FisBaseUpper}" "stopped h i (hardware st)"
    using d [THEN conjunct2, THEN conjunct1, rule_format, OF that(1), of h i v st] that(2) by auto
  show "\<exists>k. settles rd stopped h i k (wr h i CommandStatus v st)" if "v AND 0x11 = 0"
    by (rule d [THEN conjunct2, THEN conjunct2, rule_format, OF that])
qed

lemma write_base_stopped:
  assumes "ahci_init_doc rd wr impl status stopped" and "stopped h i (hardware st)"
    and "lower \<in> {ClBase, FisBase}" and "upper \<in> {ClBaseUpper, FisBaseUpper}"
  shows "stopped h i (hardware (write_base wr h i lower upper a st))"
  unfolding write_base_def using assms(3,4) by (intro init_docD(2) [OF assms(1)] assms(2)) auto

lemma wait_stopped:
  assumes "ahci_init_doc rd wr impl status stopped" and "stopped h i (hardware st)"
  shows "\<exists>st'. wait_until rd h i CommandStatus (\<lambda>v. v AND 0x8000 = 0) st = Some st'"
  using init_docD(1) [OF assms(1), of h i CommandStatus st] assms(2) by (subst wait_until.simps) auto

lemma init_command_tables_ok:
  assumes "alloc_doc alloc_zeroed translate_addr"
  shows "\<exists>hs' st'. init_command_tables alloc_zeroed translate_addr hs st = Inr (hs', replicate (length hs) zero_table, st') \<and>
    hardware st' = hardware st \<and> length hs' = length hs \<and>
    (\<forall>h' \<in> set hs'. prdt_length h' = 8 \<and> (\<exists>h \<in> set hs. atapi h' = atapi h \<and> bit_field1 h' = bit_field1 h))"
proof (induction hs arbitrary: st)
  case (Cons h hs)
  obtain addr phys st1 where 1: "alloc_zeroed (32 * 256) 128 st = (addr, st1)" "translate_addr addr = Some phys" "hardware st1 = hardware st"
    using assms unfolding alloc_doc_def by blast
  obtain hs' st' where 2: "init_command_tables alloc_zeroed translate_addr hs st1 = Inr (hs', replicate (length hs) zero_table, st')"
    "hardware st' = hardware st1" "length hs' = length hs"
    "\<forall>h' \<in> set hs'. prdt_length h' = 8 \<and> (\<exists>h \<in> set hs. atapi h' = atapi h \<and> bit_field1 h' = bit_field1 h)"
    using Cons.IH [of st1] by blast
  show ?case
    by (intro exI [of _ "h\<lparr>command_table_descriptor_base := phys, prdt_length := 8\<rparr> # hs'"] exI [of _ st'])
      (use 1 2 in \<open>auto\<close>)
qed simp

lemma clear_bits: "((v :: u32) AND NOT 0x0001 AND NOT 0x0010) AND 0x11 = 0"
  by (simp add: and.assoc)

lemma init_port_ok:
  assumes doc: "ahci_init_doc rd wr impl status stopped" and al: "alloc_doc alloc translate_addr" "alloc_doc alloc_zeroed translate_addr"
    and un: "\<forall>j. atapi (uninit j) = 0 \<and> bit_field1 (uninit j) = 0"
  shows "\<exists>qs st'. init_port rd wr alloc alloc_zeroed translate_addr uninit h i (ps, st) = Some (Inr (ps @ qs, st')) \<and>
    map (\<lambda>q. (hba_mem q, port_number q)) qs = (if connected impl status h i then [(h, i)] else []) \<and> (\<forall>q \<in> set qs. port_ok q)"
proof -
  obtain hw1 where 1: "rd h i PortImplemented st = (impl h, st\<lparr>hardware := hw1\<rparr>)" using init_docD(1) [OF doc, of h i PortImplemented st] by auto
  obtain hw2 where 2: "rd h i SataStatus (st\<lparr>hardware := hw1\<rparr>) = (status h i, st\<lparr>hardware := hw2\<rparr>)"
    using init_docD(1) [OF doc, of h i SataStatus "st\<lparr>hardware := hw1\<rparr>"] by auto
  show ?thesis
  proof (cases "connected impl status h i")
    case False
    then show ?thesis by (auto simp: init_port_def 1 2 connected_def and_exp_eq_0_iff_not_bit)
  next
    case True
    obtain c st3 where 3: "rd h i CommandStatus (st\<lparr>hardware := hw2\<rparr>) = (c, st3)" by (cases "rd h i CommandStatus (st\<lparr>hardware := hw2\<rparr>)")
    obtain st4 where 4: "wait_until rd h i CommandStatus (\<lambda>v. v AND 0x4000 = 0 \<and> v AND 0x8000 = 0)
        (wr h i CommandStatus (c AND NOT 0x0001 AND NOT 0x0010) st3) = Some st4" "stopped h i (hardware st4)"
      using init_docD(3) [OF doc clear_bits] wait_settles by blast
    obtain a1 p1 st5 where 5: "alloc 1024 1024 st4 = (a1, st5)" "translate_addr a1 = Some p1" "hardware st5 = hardware st4"
      using al(1) unfolding alloc_doc_def by blast
    let ?st5 = "write_base wr h i ClBase ClBaseUpper p1 st5"
    obtain a2 p2 st6 where 6: "alloc 256 256 ?st5 = (a2, st6)" "translate_addr a2 = Some p2" "hardware st6 = hardware ?st5"
      using al(1) unfolding alloc_doc_def by blast
    let ?st6 = "write_base wr h i FisBase FisBaseUpper p2 st6"
    obtain hs st7 where 7: "init_command_tables alloc_zeroed translate_addr (map uninit [0 ..< 32]) ?st6 = Inr (hs, replicate 32 zero_table, st7)"
      "hardware st7 = hardware ?st6" "length hs = 32"
      "\<forall>h' \<in> set hs. prdt_length h' = 8 \<and> (\<exists>h \<in> set (map uninit [0 ..< 32]). atapi h' = atapi h \<and> bit_field1 h' = bit_field1 h)"
      using init_command_tables_ok [OF al(2), of "map uninit [0 ..< 32]" ?st6] by auto
    have "stopped h i (hardware st7)"
      unfolding 7(2) by (rule write_base_stopped [OF doc]) (use 4(2) 5(3) 6(3) write_base_stopped [OF doc, of h i st5] in simp_all)
    then obtain st8 where 8: "wait_until rd h i CommandStatus (\<lambda>v. v AND 0x8000 = 0) st7 = Some st8" using wait_stopped [OF doc] by blast
    obtain c9 st9 where 9: "rd h i CommandStatus st8 = (c9, st9)" by (cases "rd h i CommandStatus st8")
    let ?q = "\<lparr>hba_mem = h, port_number = i, command_list_buffer = hs, fis_buffer = a2, command_table_buffers = replicate 32 zero_table\<rparr>"
    have "init_port rd wr alloc alloc_zeroed translate_addr uninit h i (ps, st) =
        Some (Inr (ps @ [?q], wr h i CommandStatus (c9 OR (0x01 OR 0x100)) st9))"
      using True 4(1) by (simp add: init_port_def 1 2 3 5 6 7(1) 8 9 connected_def and_exp_eq_0_iff_not_bit Let_def del: upt_rec_numeral)
    moreover have "port_ok ?q" using 7(3,4) un by (auto simp: port_ok_def zero_table_def)
    ultimately show ?thesis using True by (intro exI [of _ "[?q]"]) simp
  qed
qed

section \<open>All ports\<close>

lemma foldP_collect:
  assumes "\<And>x ps st. x \<in> set xs \<Longrightarrow> \<exists>qs st'. f x (ps, st) = Some (Inr (ps @ qs, st')) \<and> map key qs = g x \<and> (\<forall>q \<in> set qs. P q)"
  shows "\<exists>qs st'. foldP f xs (ps, st) = Some (Inr (ps @ qs, st')) \<and> map key qs = concat (map g xs) \<and> (\<forall>q \<in> set qs. P q)"
  using assms
proof (induction xs arbitrary: ps st)
  case (Cons x xs)
  obtain qs st1 where 1: "f x (ps, st) = Some (Inr (ps @ qs, st1))" "map key qs = g x" "\<forall>q \<in> set qs. P q" using Cons.prems [of x ps st] by auto
  obtain rs st2 where 2: "foldP f xs (ps @ qs, st1) = Some (Inr ((ps @ qs) @ rs, st2))" "map key rs = concat (map g xs)" "\<forall>q \<in> set rs. P q"
    using Cons.IH [of "ps @ qs" st1] Cons.prems by fastforce
  show ?case by (intro exI [of _ "qs @ rs"] exI [of _ st2]) (use 1 2 in auto)
qed simp

definition ports_of :: "(u64 \<Rightarrow> u32) \<Rightarrow> (u64 \<Rightarrow> nat \<Rightarrow> u32) \<Rightarrow> u64 \<Rightarrow> (u64 \<times> nat) list" where
  "ports_of impl status h = map (Pair h) (filter (connected impl status h) [0 ..< 32])"

lemma init_device_ok:
  assumes "ahci_init_doc rd wr impl status stopped" and "alloc_doc alloc translate_addr" "alloc_doc alloc_zeroed translate_addr"
    and "\<forall>j. atapi (uninit j) = 0 \<and> bit_field1 (uninit j) = 0" and "unat (get_bars c ! 5) + unat phys_off < 2 ^ 64"
  shows "\<exists>qs st'. init_device oc rd wr alloc alloc_zeroed translate_addr uninit phys_off c (ps, st) = Some (Inr (ps @ qs, st')) \<and>
    map (\<lambda>q. (hba_mem q, port_number q)) qs = ports_of impl status (hba_of phys_off c) \<and> (\<forall>q \<in> set qs. port_ok q)"
proof -
  have a: "add_ck oc (ucast (get_bars c ! 5)) phys_off = Inr (hba_of phys_off c)"
    using assms(5) by (simp add: hba_of_def add_ck_ok unat_ucast_up)
  have g: "concat (map (\<lambda>i. if connected impl status h i then [(h, i)] else []) xs) = map (Pair h) (filter (connected impl status h) xs)" for h xs
    by (induction xs) auto
  show ?thesis
    using foldP_collect [where P = port_ok and key = "\<lambda>q. (hba_mem q, port_number q)" and xs = "[0 ..< 32]" and
        f = "init_port rd wr alloc alloc_zeroed translate_addr uninit (hba_of phys_off c)" and
        g = "\<lambda>i. if connected impl status (hba_of phys_off c) i then [(hba_of phys_off c, i)] else []", OF init_port_ok [OF assms(1-4)]]
    by (simp add: init_device_def a g ports_of_def del: upt_rec_numeral)
qed


text \<open>A controller with ports 0 to 5 connected, whose ports stop at once.\<close>

definition calm_wr :: "u32 wr" where
  "calm_wr h p reg v st = (if reg = CommandStatus then st\<lparr>hardware := v AND 0x3FFF\<rparr> else st)"

definition example_controller :: DeviceConfigurationSpace where
  "example_controller = (config_space_at (\<lambda>_. 0) 0)\<lparr>class_code := 1, sub_class := 6, prog_if := 1, bars := [0, 0, 0, 0, 0, 0xFEBF1000]\<rparr>"

lemma calm_doc: "ahci_init_doc plain_rd calm_wr (\<lambda>_. 0x3F) (\<lambda>_ _. 0x113) (\<lambda>_ _ hw. hw AND 0x4000 = 0 \<and> hw AND 0x8000 = 0)"
proof -
  have "settles plain_rd (\<lambda>_ _ hw. hw AND 0x4000 = 0 \<and> hw AND 0x8000 = 0) h i 0 (calm_wr h i CommandStatus v st)" for h i v and st :: "u32 disk"
    by (simp add: plain_rd_def calm_wr_def and.assoc)
  then have "\<exists>k. settles plain_rd (\<lambda>_ _ hw. hw AND 0x4000 = 0 \<and> hw AND 0x8000 = 0) h i k (calm_wr h i CommandStatus v st)" for h i v and st :: "u32 disk"
    by blast
  moreover have "\<exists>v hw. plain_rd h i reg st = (v, st\<lparr>hardware := hw\<rparr>) \<and> (reg = PortImplemented \<longrightarrow> v = 0x3F) \<and> (reg = SataStatus \<longrightarrow> v = 0x113) \<and>
      (hardware st AND 0x4000 = 0 \<and> hardware st AND 0x8000 = 0 \<longrightarrow> (hw AND 0x4000 = 0 \<and> hw AND 0x8000 = 0) \<and> (reg = CommandStatus \<longrightarrow> v AND 0x8000 = 0))"
    for h i reg and st :: "u32 disk"
    by (rule exI [of _ "fst (plain_rd h i reg st)"], rule exI [of _ "hardware st"]) (simp add: plain_rd_def)
  moreover have "\<exists>hw. calm_wr h i reg v st = st\<lparr>hardware := hw\<rparr> \<and>
      (hardware st AND 0x4000 = 0 \<and> hardware st AND 0x8000 = 0 \<longrightarrow> hw AND 0x4000 = 0 \<and> hw AND 0x8000 = 0)"
    if "reg \<in> {ClBase, ClBaseUpper, FisBase, FisBaseUpper}" for h i reg v and st :: "u32 disk"
    using that by (intro exI [of _ "hardware st"]) (auto simp: calm_wr_def)
  ultimately show ?thesis unfolding ahci_init_doc_def by blast
qed


end
