(* ===== verification/Spec2Isabelle.thy ===== *)
theory Spec2Isabelle
  imports Boot Keyboard_Task Disk_Init
begin

text \<open>
  \<^bold>\<open>lobsterOS\<close>, an x86-64 kernel in Rust, as a shallow embedding: every function of the kernel that computes or changes state is a
  HOL function of the same name, and the theorems state what the kernel does with them, error paths included.

  \<^bold>\<open>The program and its model.\<close> The boot loader enters \<^verbatim>\<open>lobster::init\<close> (\<^verbatim>\<open>src/lib.rs\<close>), which sets up the processor, memory and
  the devices, mounts a FAT volume, loads \<^verbatim>\<open>/BIN/BASH\<close> as a process and enables the scheduler. From then on the kernel runs in
  interrupts and system calls. The theories follow the components, each after the ones it calls:

  \<^item> \<open>Kernel_Prelude\<close>: Rust integers as words, panics as values (\<open>'a rust\<close>), code that may not return (\<open>'a outcome\<close>, where
    \<open>None\<close> is not returning), arithmetic with and without overflow checks (the flag \<open>oc\<close>), slices, little-endian fields, and the
    contract \<open>packed_struct\<close> of structures read by pointer casts.
  \<^item> \<open>Memory\<close> (\<^verbatim>\<open>memory.rs\<close>): \<open>linear_frame_allocator\<close> and \<open>buddy_allocator\<close>. The contract \<open>frame_allocator\<close> is what mapping code
    relies on; both allocators are interpretations of it.
  \<^item> \<open>Fixed_Block\<close> (\<^verbatim>\<open>allocator/fixed_block.rs\<close>): the kernel heap. Free lists are links in memory (\<open>node_next\<close>); the fallback heap is a
    crate and a parameter.
  \<^item> \<open>Paging\<close> and \<open>Heap_Init\<close> (\<^verbatim>\<open>allocator.rs\<close>): what is used of the crate \<^verbatim>\<open>x86_64\<close> for mapping, and \<open>init_heap\<close>.
  \<^item> \<open>Machine\<close>, \<open>Gdt\<close> (\<^verbatim>\<open>gdt.rs\<close>), \<open>Process\<close> (\<^verbatim>\<open>process.rs\<close>): registers, memory and the instructions of the inline assembly; the
    descriptor table; page tables, stacks, \<open>activate\<close> and \<open>deactivate\<close>.
  \<^item> \<open>Vga_Text\<close> (\<^verbatim>\<open>display/vga_text.rs\<close>): the text screen. The contract \<open>text_sink\<close> is what everything that prints relies on.
  \<^item> \<open>Scheduler\<close> (\<^verbatim>\<open>threading/scheduler.rs\<close>): the round robin scheduler; a context switch is a value of type \<open>switch\<close>.
  \<^item> \<open>Utf8\<close> and \<open>Syscall\<close> (\<^verbatim>\<open>syscall.rs\<close>, \<^verbatim>\<open>syscall/\<close>): the assembly wrapper as an instruction list, the call stack, the handlers.
  \<^item> \<open>Elf\<close> (\<^verbatim>\<open>elf.rs\<close>) and \<open>Spawn\<close> (\<^verbatim>\<open>Process::spawn_from_file\<close>): header decoding, segments, and the whole creation of a process.
  \<^item> \<open>Acpi\<close>, \<open>Pci\<close>, \<open>Disk\<close>, \<open>Disk_Init\<close>, \<open>Fs\<close> (\<^verbatim>\<open>acpi.rs\<close>, \<^verbatim>\<open>pci.rs\<close>, \<^verbatim>\<open>disk.rs\<close>, \<^verbatim>\<open>fs.rs\<close>): firmware tables, bus enumeration, the AHCI driver and its
    initialisation, and the FAT reader with \<open>get_bash\<close>.
  \<^item> \<open>Async_Tasks\<close> and \<open>Keyboard_Task\<close> (\<^verbatim>\<open>task.rs\<close>, \<^verbatim>\<open>task/\<close>): the executor, wakers, the scancode queue and the task that prints keys. The
    interleaving of the executor with keyboard interrupts is a step relation (\<open>sys_reach\<close>).
  \<^item> \<open>Interrupts\<close> (\<^verbatim>\<open>interrupts.rs\<close>) and \<open>Boot\<close> (\<^verbatim>\<open>lib.rs\<close>): the interrupt table and every handler; the four stages of \<open>init\<close>. This theory adds
    the properties that span all of it.

  State is passed explicitly: a \<^verbatim>\<open>static\<close> or a \<^verbatim>\<open>OnceCell\<close> is an argument and a result, a struct is a record, a device is its registers
  behind two functions \<open>rd\<close> and \<open>wr\<close>. A \<^verbatim>\<open>panic!\<close>, a failed \<^verbatim>\<open>unwrap\<close>, an index out of range and a checked overflow are values \<open>Inl\<close>.

  \<^bold>\<open>What is shown.\<close>

  \<^item> Memory: frames are handed out once and lie in usable regions; live heap blocks are disjoint, aligned and inside the heap, and
    no heap operation panics; the heap is mapped with distinct frames. At boot one frame is handed out twice
    (\<open>boot_gives_heap_frame_away\<close>).
  \<^item> Processes: a context switch restores what it saved; a new process is entered in user mode; a new address space shares the kernel's
    tables; \<open>spawn_from_file\<close> succeeds and loads the file, for one-page segments. Larger segments panic; processes share one
    interrupt stack, and a preempted frame is overwritten.
  \<^item> Scheduling: the search for the next task is the cyclic search of a reference definition, the rotation is fair, pids stay distinct. With
    no ready task the search never ends; a finished first task panics; a killed task is revived.
  \<^item> System calls: arguments arrive, registers and stack are restored, selectors match the descriptor table, printing accepts exactly UTF-8;
    the result of a call is lost.
  \<^item> Screen: the 25 rows are the last lines of an unbounded terminal, and printing never fails.
  \<^item> Devices: the firmware pointer found is the first valid one; enumeration finds every function before the last bus; \<open>disk::init\<close> finds every
    connected port; sectors written are read back; the FAT tree is read exactly; files from 32 MiB on expose memory behind the buffer.
  \<^item> Tasks: however interrupts interleave, no accepted scancode is lost and the executor comes to rest with all of them delivered; the
    executor polls in queue order; the keyboard task prints what the decoder finds.
  \<^item> Boot: with a suitable volume, the kernel ends its initialisation with the shell as its only task, and the twentieth timer interrupt enters
    it in user mode (\<open>boot_starts_shell\<close>).

  \<^bold>\<open>Bounds and fuel.\<close> No definition has fuel: a loop that need not end is a \<open>partial_function (option)\<close>, and where a theorem says that code
  returns, it says \<open>Some\<close>. The number of polls of a device or of a stopping port is an unbounded existential. File sizes below 4 MiB in the boot theorem are
  the driver's limit of 8192 sectors for one transfer; segments of one page are the limit of the loader, which panics on larger ones.

  \<^bold>\<open>Hypotheses.\<close> Code outside \<^verbatim>\<open>src/\<close> is a parameter with its documented behaviour: page mapping (\<open>map_to_contract\<close>, \<open>entry_doc\<close>, \<open>page_range_doc\<close>), the
  fallback heap, lock-free queues and wakers (\<open>array_queue_doc\<close>, \<open>atomic_waker_doc\<close>), trees (\<open>trees_doc\<close>), the scancode decoder, and the AHCI
  hardware (\<open>ahci_port_doc\<close>, \<open>ahci_init_doc\<close>). Every theorem that has such a hypothesis is followed by an instance on a concrete function. The drive in
  \<open>boot_starts_shell\<close> is idle by hypothesis: \<open>disk_init_finds_drives\<close> gives its structures, but \<open>init_leaves_fis_receive_off\<close> shows that the driver starts a port
  in a way for which the AHCI specification promises nothing.

  \<^bold>\<open>Not modelled.\<close> The serial port and the panic handlers (output through a crate); the test harness and the QEMU exit port; \<^verbatim>\<open>threading/thread.rs\<close>, whose
  \<^verbatim>\<open>run\<close> has no body; \<^verbatim>\<open>userspace.rs\<close>, an endless loop that nothing starts; \<^verbatim>\<open>main.rs\<close>, which calls \<^verbatim>\<open>init\<close> and halts; code in comments
  (\<^verbatim>\<open>map_process\<close>, the old segment loader); the tree printer of \<^verbatim>\<open>fs.rs\<close>, the received frames of \<^verbatim>\<open>disk.rs\<close> and the command register of \<^verbatim>\<open>pci.rs\<close>, which nothing uses;
  caches, the translation lookaside buffer and interrupts between two instructions other than the keyboard's; and formatting by the \<^verbatim>\<open>Debug\<close> implementations
  of crates, whose text is an argument.
\<close>

section \<open>Properties that span components\<close>

lemma first_frame_backs_heap:
  assumes "page_range_doc page_range" and "map_to_contract map_to lookup (lfa_free frame_of) (lfa_inv frame_of)"
    and "map_to_allocates map_to (lfa_allocate_frame oc frame_of)"
    and "\<forall>f m s r m' s'. map_to 0x44444453F000 f {PRESENT, WRITABLE} m s = Inr (r, m', s') \<longrightarrow> s' = s"
    and "length (frame_addresses memory_map) < 2 ^ 64 - 1"
    and run: "init_memory oc frame_of page_range map_to heap_init view cr3_frame boot_offset memory_map al = Inr (mapper, m, al', b)"
  shows "\<exists>f fs. lookup m 0x44444453F000 = Some (f, {PRESENT, WRITABLE}) \<and> frame_iter b = f # fs"
proof -
  obtain ps where ps: "heap_pages page_range = ps @ [0x44444453F000]" using heap_pages_last [OF assms(1)] by blast
  from run obtain m0 s where h: "map_heap_pages (lfa_allocate_frame oc frame_of) map_to {PRESENT, WRITABLE} (ps @ [0x44444453F000]) m0 (lfa_init memory_map) =
      Inr (Inr (), m, s)" and b: "b = ba_init frame_of memory_map (get_used s)"
    by (auto simp: init_memory_def init_heap_def ps Let_def elim!: bindE_InrE split: sum.splits)
  have "lfa_inv frame_of (lfa_init memory_map)" using assms(5) by (simp add: lfa_inv_def lfa_init_def)
  from last_page_frame [OF assms(2-4) this h] obtain f where f: "lookup m 0x44444453F000 = Some (f, {PRESENT, WRITABLE})"
    "get_opt (usable_frames frame_of memory_map) (unat (lfa_next s)) = Some f"
    by (auto simp: lfa_init_def)
  from f(2) have "drop (unat (lfa_next s)) (usable_frames frame_of memory_map) = f # drop (Suc (unat (lfa_next s))) (usable_frames frame_of memory_map)"
    by (auto simp: get_opt_def Cons_nth_drop_Suc split: if_splits)
  then show ?thesis using f(1) by (simp add: b ba_init_def get_used_def)
qed


definition example_regions :: "memory_region list" where
  "example_regions = [\<lparr>start_addr = 0x1000, end_addr = 0x200000, is_usable = True\<rparr>]"




lemma example_shell_sector:
  "elf_file example_segment = take (unat (fat_file_size (data (Node (example_bash (elf_file example_segment)) []))))
     (sector_range (fast_sectors 0xFEBF1000 1 (hardware (example_volume (file_bytes example_bin) (elf_file example_segment))))
       (of_nat (cluster_sector example_boot (get_data_addr (data (Node (example_bash (elf_file example_segment)) [])))))
       (unat (fat_file_size (data (Node (example_bash (elf_file example_segment)) []))) div 512 + 1))"
  by (simp add: example_names example_cluster elf_file_header(2) [OF example_reserved] sector_range_def fast_sectors_def example_volume_def map_sector_at
    del: upt_rec_numeral)

definition example_irq :: "'f Scheduler \<Rightarrow> 'f irq" where
  "example_irq s = \<lparr>port_writes = [], loaded_idt = None, ended = [], sched_locked = False, sched = s\<rparr>"


end
